theory Spec2Isabelle
  imports Main "HOL-Library.Word" "HOL-Library.Sublist" "HOL-Library.Multiset"
begin

chapter \<open>The program\<close>

section \<open>Strings as the program has them\<close>

text \<open>
  A JavaScript string is a sequence of 16-bit code units; \<open>length\<close>, \<open>slice\<close>,
  \<open>startsWith\<close> and \<open>split\<close> all count code units. \<open>str\<close> turns an ASCII literal
  into such a sequence.
\<close>

type_synonym code_unit = "16 word"
type_synonym js_string = "code_unit list"

definition str :: "string \<Rightarrow> js_string" where
  "str s = map (\<lambda>c. of_nat (of_char c)) s"

text \<open>
  The code units that \<open>String.prototype.trim\<close> removes: the WhiteSpace and
  LineTerminator productions of ECMAScript (TAB, LF, VT, FF, CR, SP, NBSP, U+1680,
  U+2000..U+200A, U+2028, U+2029, U+202F, U+205F, U+3000, U+FEFF).
\<close>

definition isWhiteSpace :: "code_unit \<Rightarrow> bool" where
  "isWhiteSpace c \<longleftrightarrow>
     c = 0x09 \<or> c = 0x0A \<or> c = 0x0B \<or> c = 0x0C \<or> c = 0x0D \<or> c = 0x20 \<or> c = 0xA0 \<or>
     c = 0x1680 \<or> (0x2000 \<le> c \<and> c \<le> 0x200A) \<or> c = 0x2028 \<or> c = 0x2029 \<or>
     c = 0x202F \<or> c = 0x205F \<or> c = 0x3000 \<or> c = 0xFEFF"

definition trimStart :: "js_string \<Rightarrow> js_string" where
  "trimStart s = dropWhile isWhiteSpace s"

definition trimEnd :: "js_string \<Rightarrow> js_string" where
  "trimEnd s = rev (dropWhile isWhiteSpace (rev s))"

definition trim :: "js_string \<Rightarrow> js_string" where
  "trim s = trimEnd (trimStart s)"

definition LF :: code_unit where
  "LF = 0x0A"

text \<open>\<open>s.split("\n")\<close>: the empty string gives one empty piece.\<close>

fun splitLines :: "js_string \<Rightarrow> js_string list" where
  "splitLines [] = [[]]"
| "splitLines (c # cs) =
     (if c = LF then [] # splitLines cs
      else (case splitLines cs of
              [] \<Rightarrow> [[c]]
            | l # ls \<Rightarrow> (c # l) # ls))"

text \<open>\<open>xs.join("\n")\<close>.\<close>

fun joinLines :: "js_string list \<Rightarrow> js_string" where
  "joinLines [] = []"
| "joinLines [x] = x"
| "joinLines (x # y # ys) = x @ LF # joinLines (y # ys)"

definition startsWith :: "js_string \<Rightarrow> js_string \<Rightarrow> bool" where
  "startsWith s p \<longleftrightarrow> take (length p) s = p"

text \<open>\<open>s.slice(n)\<close> for a non-negative \<open>n\<close>.\<close>

definition slice :: "nat \<Rightarrow> js_string \<Rightarrow> js_string" where
  "slice n s = drop n s"

text \<open>\<open>Boolean(s)\<close> on a string: every string but the empty one is truthy.\<close>

definition truthy :: "js_string \<Rightarrow> bool" where
  "truthy s \<longleftrightarrow> s \<noteq> []"

text \<open>
  \<open>a || b\<close> where \<open>a\<close> is a string or \<open>undefined\<close> (\<open>None\<close>): \<open>undefined\<close> and the
  empty string are falsy. \<open>orUndef\<close> is the inner link of a chain \<open>a || b || c\<close>,
  \<open>orElse\<close> the link whose right operand is certainly a string.
\<close>

definition orUndef :: "js_string option \<Rightarrow> js_string option \<Rightarrow> js_string option" where
  "orUndef a b = (case a of None \<Rightarrow> b | Some s \<Rightarrow> if truthy s then Some s else b)"

definition orElse :: "js_string option \<Rightarrow> js_string \<Rightarrow> js_string" where
  "orElse a b = (case a of None \<Rightarrow> b | Some s \<Rightarrow> if truthy s then s else b)"


section \<open>Input normaliser (utils/packageUtils.ts)\<close>

definition stripPackagePrefix :: "js_string \<Rightarrow> js_string" where
  "stripPackagePrefix line =
     (if startsWith line (str ''package:'') then slice 8 line else line)"

definition parsePackageList :: "js_string \<Rightarrow> js_string list" where
  "parsePackageList input =
     filter truthy
       (map stripPackagePrefix
         (filter truthy
           (map trim (splitLines (trim input)))))"


section \<open>Data model (types.ts)\<close>

record PackageInfo =
  appID :: js_string
  info_appName :: "js_string option"
  info_description :: "js_string option"

datatype PackageData = PkgString js_string | PkgInfo PackageInfo

record DeviceData =
  recognisedPackages :: "js_string list"
  bloatwarePackages :: "PackageData list"

datatype SafetyRating = Safe | Caution | Risky

text \<open>
  The \<open>category\<close> of a detected package is a string at run time; its declared type
  admits the five literals collected in \<open>fixedCategories\<close>.
\<close>

record DetectedPackage =
  packageName :: js_string
  appName :: js_string
  description :: js_string
  safetyRating :: "SafetyRating option"
  removalImpact :: "js_string option"
  packageCategory :: "js_string option"
  category :: js_string
  selected :: bool

definition fixedCategories :: "js_string list" where
  "fixedCategories =
     [str ''brand'', str ''chipset'', str ''generic'', str ''suspicious'', str ''system'']"

text \<open>
  What \<open>getPackageMetadata\<close> of \<open>data/metadata.ts\<close> returns for an identifier it
  knows. The classifier reads five properties of it, each through \<open>meta?.field\<close>, so
  each may be missing. The lookup itself is a parameter of the classifier below.
\<close>

record MetadataEntry =
  meta_appName :: "js_string option"
  meta_description :: "js_string option"
  meta_safetyRating :: "SafetyRating option"
  meta_removalImpact :: "js_string option"
  meta_category :: "js_string option"

text \<open>The interface \<open>PackageMetadata\<close> internal to packageUtils.ts.\<close>

record PackageMetadata =
  pm_appName :: js_string
  pm_description :: js_string


section \<open>Classifier (utils/packageUtils.ts)\<close>

definition BRAND_PREFIXES :: "js_string list" where
  "BRAND_PREFIXES =
     [str ''com.samsung.'', str ''com.skms.'', str ''com.sds.'', str ''com.sec.'',
      str ''com.xiaomi.'', str ''com.miui.'', str ''com.mi.'', str ''com.huawei.'',
      str ''com.oppo.'', str ''com.vivo.'', str ''com.oneplus.'', str ''com.google.'',
      str ''com.lge.'', str ''com.motorola.'', str ''com.asus.'', str ''com.sony.'',
      str ''com.nokia.'', str ''com.facebook.'', str ''com.hihonor.'']"

definition CHIPSET_PREFIXES :: "js_string list" where
  "CHIPSET_PREFIXES =
     [str ''com.qualcomm.'', str ''com.qti.'', str ''vendor.qti.'', str ''com.mediatek.'',
      str ''org.codeaurora.'']"

text \<open>
  \<open>String.prototype.toLowerCase\<close> is the language's Unicode lower-casing; the
  classifier takes it as the parameter \<open>toLowerCase\<close>. On strings of ASCII code units
  it is \<open>toLowerCaseASCII\<close>, which the worked examples use.
\<close>

definition toLowerCaseASCII :: "js_string \<Rightarrow> js_string" where
  "toLowerCaseASCII s = map (\<lambda>c. if 0x41 \<le> c \<and> c \<le> 0x5A then c + 0x20 else c) s"

definition categorisePackage :: "(js_string \<Rightarrow> js_string) \<Rightarrow> js_string \<Rightarrow> js_string" where
  "categorisePackage toLowerCase pkgName =
     (let lower = toLowerCase pkgName in
      if list_ex (\<lambda>p. startsWith lower p) BRAND_PREFIXES then str ''brand''
      else if list_ex (\<lambda>p. startsWith lower p) CHIPSET_PREFIXES then str ''chipset''
      else str ''generic'')"

text \<open>
  The first loop of \<open>detectBloatware\<close>: the set of bloatware identifiers and the
  map from identifier to the name and description of its database record.
\<close>

definition packageIdOf :: "PackageData \<Rightarrow> js_string" where
  "packageIdOf item = (case item of PkgString s \<Rightarrow> s | PkgInfo info \<Rightarrow> appID info)"

fun bloatwareIndex ::
  "PackageData list \<Rightarrow> js_string set \<times> (js_string \<rightharpoonup> PackageMetadata)
     \<Rightarrow> js_string set \<times> (js_string \<rightharpoonup> PackageMetadata)" where
  "bloatwareIndex [] acc = acc"
| "bloatwareIndex (item # items) (bloatwarePackageSet, bloatwareMetadataMap) =
     (let packageId = packageIdOf item;
          bloatwarePackageSet' = insert packageId bloatwarePackageSet
      in case item of
           PkgString _ \<Rightarrow> bloatwareIndex items (bloatwarePackageSet', bloatwareMetadataMap)
         | PkgInfo info \<Rightarrow>
             bloatwareIndex items
               (bloatwarePackageSet',
                bloatwareMetadataMap(packageId \<mapsto>
                  \<lparr>pm_appName = orElse (info_appName info) packageId,
                   pm_description = orElse (info_description info) []\<rparr>)))"

definition RECOGNISED_FALLBACK :: js_string where
  "RECOGNISED_FALLBACK = str
     ''Recognised as a legitimate application. Not identified as bloatware, but can be removed if desired.''"

definition SUSPICIOUS_FALLBACK :: js_string where
  "SUSPICIOUS_FALLBACK = str
     ''Unrecognised package - not in our verified database. Research carefully before removing.''"

text \<open>The body of the second loop for an identifier not seen before.\<close>

definition detectEntry ::
  "(js_string \<Rightarrow> js_string) \<Rightarrow> (js_string \<Rightarrow> MetadataEntry option) \<Rightarrow> js_string set \<Rightarrow>
     js_string set \<Rightarrow> (js_string \<rightharpoonup> PackageMetadata) \<Rightarrow> js_string \<Rightarrow> DetectedPackage" where
  "detectEntry toLowerCase getPackageMetadata recognisedPackageSet bloatwarePackageSet
     bloatwareMetadataMap pkgName =
     (let meta = getPackageMetadata pkgName in
      if pkgName \<in> recognisedPackageSet then
        \<lparr>packageName = pkgName,
         appName = orElse (Option.bind meta meta_appName) pkgName,
         description = orElse (Option.bind meta meta_description) RECOGNISED_FALLBACK,
         safetyRating = Option.bind meta meta_safetyRating,
         removalImpact = Option.bind meta meta_removalImpact,
         packageCategory = Option.bind meta meta_category,
         category = str ''system'',
         selected = False\<rparr>
      else if pkgName \<in> bloatwarePackageSet then
        (let bloatMeta = bloatwareMetadataMap pkgName in
         \<lparr>packageName = pkgName,
          appName = orElse (orUndef (Option.bind meta meta_appName)
                                    (map_option pm_appName bloatMeta)) pkgName,
          description = orElse (orUndef (Option.bind meta meta_description)
                                        (map_option pm_description bloatMeta)) [],
          safetyRating = Option.bind meta meta_safetyRating,
          removalImpact = Option.bind meta meta_removalImpact,
          packageCategory = Option.bind meta meta_category,
          category = categorisePackage toLowerCase pkgName,
          selected = True\<rparr>)
      else
        \<lparr>packageName = pkgName,
         appName = orElse (Option.bind meta meta_appName) pkgName,
         description = orElse (Option.bind meta meta_description) SUSPICIOUS_FALLBACK,
         safetyRating = Option.bind meta meta_safetyRating,
         removalImpact = Option.bind meta meta_removalImpact,
         packageCategory = Option.bind meta meta_category,
         category = str ''suspicious'',
         selected = False\<rparr>)"

text \<open>
  The second loop, over the installed identifiers, with its two variables
  \<open>detected\<close> and \<open>processedPackages\<close> passed along.
\<close>

fun detectLoop ::
  "(js_string \<Rightarrow> DetectedPackage) \<Rightarrow> js_string list \<Rightarrow> DetectedPackage list \<times> js_string set
     \<Rightarrow> DetectedPackage list \<times> js_string set" where
  "detectLoop entry [] st = st"
| "detectLoop entry (p # ps) (detected, processedPackages) =
     (if p \<in> processedPackages then detectLoop entry ps (detected, processedPackages)
      else detectLoop entry ps (detected @ [entry p], insert p processedPackages))"

definition detectBloatware ::
  "(js_string \<Rightarrow> js_string) \<Rightarrow> (js_string \<Rightarrow> MetadataEntry option) \<Rightarrow>
     js_string list \<Rightarrow> DeviceData \<Rightarrow> DetectedPackage list" where
  "detectBloatware toLowerCase getPackageMetadata installedPackages deviceData =
     (let recognisedPackageSet = set (recognisedPackages deviceData);
          (bloatwarePackageSet, bloatwareMetadataMap) =
             bloatwareIndex (bloatwarePackages deviceData) ({}, Map.empty)
      in fst (detectLoop
                (detectEntry toLowerCase getPackageMetadata recognisedPackageSet
                   bloatwarePackageSet bloatwareMetadataMap)
                installedPackages ([], {})))"

section \<open>Grouping for display (utils/packageUtils.ts)\<close>

text \<open>
  \<open>categoryLabels\<close> is a plain object with five own properties and
  \<open>categoryOrderMap\<close> a \<open>Map\<close> with five keys. The label lookup is modelled on the
  own properties; the statements about groups below are about collections whose
  categories are among the five.
\<close>

definition categoryLabels :: "(js_string \<times> js_string) list" where
  "categoryLabels =
     [(str ''brand'', str ''Brand-Specific Bloatware''),
      (str ''chipset'', str ''Chipset-Specific Bloatware''),
      (str ''generic'', str ''Generic Bloatware''),
      (str ''suspicious'', str ''Suspicious Packages''),
      (str ''system'', str ''Other Installed Apps'')]"

definition categoryOrderMap :: "(js_string \<times> nat) list" where
  "categoryOrderMap =
     [(str ''brand'', 0), (str ''chipset'', 1), (str ''generic'', 2),
      (str ''suspicious'', 3), (str ''system'', 4)]"

definition DEFAULT_CATEGORY_PRIORITY :: nat where
  "DEFAULT_CATEGORY_PRIORITY = 999"

text \<open>\<open>categoryOrderMap.get(c) ?? DEFAULT_CATEGORY_PRIORITY\<close>.\<close>

definition categoryPriority :: "js_string \<Rightarrow> nat" where
  "categoryPriority c =
     (case map_of categoryOrderMap c of None \<Rightarrow> DEFAULT_CATEGORY_PRIORITY | Some n \<Rightarrow> n)"

text \<open>\<open>categoryLabels[c] || c\<close>.\<close>

definition categoryLabel :: "js_string \<Rightarrow> js_string" where
  "categoryLabel c = orElse (map_of categoryLabels c) c"

text \<open>
  The result is a \<open>Map\<close> from label to packages; a \<open>Map\<close> iterates in the order
  in which its keys were first set, so it is an association list in that order.
  \<open>groupsPush\<close> is the loop body: create the group when the label is new, then push.
\<close>

type_synonym groups = "(js_string \<times> DetectedPackage list) list"

fun groupsPush :: "js_string \<Rightarrow> DetectedPackage \<Rightarrow> groups \<Rightarrow> groups" where
  "groupsPush label pkg [] = [(label, [pkg])]"
| "groupsPush label pkg ((k, v) # g) =
     (if k = label then (k, v @ [pkg]) # g else (k, v) # groupsPush label pkg g)"

text \<open>
  \<open>[...packages].sort(cmp)\<close> with \<open>cmp\<close> the difference of the priorities:
  \<open>Array.prototype.sort\<close> is stable, and the stable sort by a key is \<open>sort_key\<close>.
\<close>

definition sortedByPriority :: "DetectedPackage list \<Rightarrow> DetectedPackage list" where
  "sortedByPriority packages = sort_key (\<lambda>p. categoryPriority (category p)) packages"

definition groupByCategory :: "DetectedPackage list \<Rightarrow> groups" where
  "groupByCategory packages =
     foldl (\<lambda>g pkg. groupsPush (categoryLabel (category pkg)) pkg g) []
       (sortedByPriority packages)"


section \<open>Selection toggles (components/PackageList.tsx)\<close>

text \<open>
  A handler either calls \<open>onPackagesChange\<close> with a new collection (\<open>Some\<close>) or
  returns without calling it (\<open>None\<close>); \<open>onPackagesChange\<close> is the application's
  \<open>setDetectedPackages\<close>, so \<open>afterChange\<close> is the collection held afterwards.
\<close>

definition handleToggleAll ::
  "DetectedPackage list \<Rightarrow> js_string \<Rightarrow> bool \<Rightarrow> DetectedPackage list option" where
  "handleToggleAll packages cat sel =
     (let catPkgs = (case map_of (groupByCategory packages) cat of None \<Rightarrow> [] | Some l \<Rightarrow> l) in
      if length catPkgs = 0 then None
      else
        (let names = set (map packageName catPkgs);
             needsUpdate = list_ex (\<lambda>p. selected p \<noteq> sel) catPkgs in
         if \<not> needsUpdate then None
         else Some (map (\<lambda>p. if packageName p \<in> names \<and> selected p \<noteq> sel
                               then p\<lparr>selected := sel\<rparr> else p) packages)))"

definition handleTogglePackage ::
  "DetectedPackage list \<Rightarrow> js_string \<Rightarrow> DetectedPackage list option" where
  "handleTogglePackage packages name =
     Some (map (\<lambda>p. if packageName p = name then p\<lparr>selected := \<not> selected p\<rparr> else p)
             packages)"

definition afterChange ::
  "DetectedPackage list \<Rightarrow> DetectedPackage list option \<Rightarrow> DetectedPackage list" where
  "afterChange packages r = (case r of None \<Rightarrow> packages | Some updated \<Rightarrow> updated)"


section \<open>Command synthesis and detection run (App.tsx)\<close>

record CommandSummary =
  commands :: "js_string list"
  selectedCount :: nat
  bloatwareCount :: nat
  suspiciousCount :: nat
  systemCount :: nat

text \<open>One iteration of the loop inside the \<open>useMemo\<close> that computes the commands.\<close>

definition commandsStep :: "DetectedPackage \<Rightarrow> CommandSummary \<Rightarrow> CommandSummary" where
  "commandsStep pkg acc =
     (let acc1 =
        (if selected pkg then
           acc\<lparr>selectedCount := selectedCount acc + 1,
               commands := commands acc @
                 [str ''pm disable-user --user 0 '' @ packageName pkg,
                  str ''pm clear --user 0 '' @ packageName pkg,
                  str ''pm uninstall --user 0 '' @ packageName pkg]\<rparr>
         else acc)
      in if category pkg = str ''suspicious'' then acc1\<lparr>suspiciousCount := suspiciousCount acc1 + 1\<rparr>
         else if category pkg = str ''system'' then acc1\<lparr>systemCount := systemCount acc1 + 1\<rparr>
         else acc1\<lparr>bloatwareCount := bloatwareCount acc1 + 1\<rparr>)"

fun commandsLoop :: "DetectedPackage list \<Rightarrow> CommandSummary \<Rightarrow> CommandSummary" where
  "commandsLoop [] acc = acc"
| "commandsLoop (pkg # pkgs) acc = commandsLoop pkgs (commandsStep pkg acc)"

definition commandsMemo :: "DetectedPackage list \<Rightarrow> CommandSummary" where
  "commandsMemo detectedPkgs =
     commandsLoop detectedPkgs
       \<lparr>commands = [], selectedCount = 0, bloatwareCount = 0, suspiciousCount = 0,
        systemCount = 0\<rparr>"

record AppState =
  packageInput :: js_string
  detectedPackages :: "DetectedPackage list"
  error :: "js_string option"
  isProcessing :: bool
  currentStep :: nat

text \<open>
  \<open>handleDetectBloatware\<close>, with the state setters as record updates and the two
  timer waits left out. The call \<open>detectBloatware(installedPackages, bloatwareData)\<close>
  sits inside \<open>try\<close>; it is the parameter \<open>detect\<close>, which returns the collection
  (\<open>Inr\<close>) or throws an error with a message (\<open>Inl\<close>), so that the \<open>catch\<close> branch is
  part of the model. \<open>finally\<close> resets \<open>isProcessing\<close> on every path through \<open>try\<close>.
\<close>

definition handleDetectBloatware ::
  "(js_string list \<Rightarrow> js_string + DetectedPackage list) \<Rightarrow> AppState \<Rightarrow> AppState" where
  "handleDetectBloatware detect st =
     (let st1 = st\<lparr>error := None\<rparr> in
      if \<not> truthy (trim (packageInput st)) then
        st1\<lparr>error := Some (str ''Please paste your package list'')\<rparr>
      else
        (let st2 = st1\<lparr>isProcessing := True\<rparr>;
             installedPackages = parsePackageList (packageInput st) in
         if length installedPackages = 0 then
           st2\<lparr>error := Some (str ''No valid packages found in the input''),
               isProcessing := False\<rparr>
         else
           (case detect installedPackages of
              Inr detected \<Rightarrow>
                st2\<lparr>detectedPackages := detected, currentStep := 2, isProcessing := False\<rparr>
            | Inl message \<Rightarrow>
                st2\<lparr>error := Some (str ''An error occurred whilst processing: '' @ message),
                    isProcessing := False\<rparr>)))"

text \<open>The detection run of the application: the classifier itself never throws.\<close>

definition runDetection ::
  "(js_string \<Rightarrow> js_string) \<Rightarrow> (js_string \<Rightarrow> MetadataEntry option) \<Rightarrow> DeviceData \<Rightarrow>
     AppState \<Rightarrow> AppState" where
  "runDetection toLowerCase getPackageMetadata bloatwareData =
     handleDetectBloatware
       (\<lambda>installedPackages.
          Inr (detectBloatware toLowerCase getPackageMetadata installedPackages bloatwareData))"

section \<open>Notions used in the statements\<close>

text \<open>The distinct elements of a list in the order of their first occurrence.\<close>

fun firstSeen :: "'a list \<Rightarrow> 'a list" where
  "firstSeen [] = []"
| "firstSeen (x # xs) = x # firstSeen (filter (\<lambda>y. y \<noteq> x) xs)"

text \<open>The three removal commands of one package identifier.\<close>

definition removalCommands :: "js_string \<Rightarrow> js_string list" where
  "removalCommands pkg =
     [str ''pm disable-user --user 0 '' @ pkg,
      str ''pm clear --user 0 '' @ pkg,
      str ''pm uninstall --user 0 '' @ pkg]"

text \<open>
  Reading an empty string as an absent value: in an optional string, in the two
  text fields of a metadata entry, and in the two text fields of a database record.
\<close>

definition emptyAsAbsent :: "js_string option \<Rightarrow> js_string option" where
  "emptyAsAbsent a = (case a of None \<Rightarrow> None | Some s \<Rightarrow> if s = [] then None else Some s)"

definition metadataEmptyAsAbsent :: "MetadataEntry \<Rightarrow> MetadataEntry" where
  "metadataEmptyAsAbsent e =
     e\<lparr>meta_appName := emptyAsAbsent (meta_appName e),
       meta_description := emptyAsAbsent (meta_description e)\<rparr>"

definition packageDataEmptyAsAbsent :: "PackageData \<Rightarrow> PackageData" where
  "packageDataEmptyAsAbsent item =
     (case item of
        PkgString s \<Rightarrow> PkgString s
      | PkgInfo info \<Rightarrow>
          PkgInfo (info\<lparr>info_appName := emptyAsAbsent (info_appName info),
                         info_description := emptyAsAbsent (info_description info)\<rparr>))"

text \<open>
  The first source of a precedence chain that is present and not the empty string, or
  the fallback when there is none.
\<close>

fun firstPresent :: "js_string option list \<Rightarrow> js_string \<Rightarrow> js_string" where
  "firstPresent [] fallback = fallback"
| "firstPresent (None # sources) fallback = firstPresent sources fallback"
| "firstPresent (Some s # sources) fallback =
     (if s = [] then firstPresent sources fallback else s)"

text \<open>
  The database record of an identifier: the last record of the bloatware list that
  carries the identifier (a later record replaces an earlier one in the map), if any.
\<close>

fun bloatwareRecord :: "PackageData list \<Rightarrow> js_string \<Rightarrow> PackageInfo option" where
  "bloatwareRecord [] p = None"
| "bloatwareRecord (item # items) p =
     (case bloatwareRecord items p of
        Some info \<Rightarrow> Some info
      | None \<Rightarrow>
          (case item of
             PkgString _ \<Rightarrow> None
           | PkgInfo info \<Rightarrow> if appID info = p then Some info else None))"


section \<open>Worked example\<close>

text \<open>
  A small database, metadata table and pasted input, after the end-to-end scenario of
  the specification: \<open>com.android.egg\<close> is bloatware, \<open>com.android.chrome\<close> is recognised
  and also listed as bloatware, \<open>com.unknown.test123\<close> is in neither set, and
  \<open>com.Samsung.bixby\<close> is bloatware with an empty name in its record and an empty
  description in its metadata.
\<close>

definition exampleData :: DeviceData where
  "exampleData =
     \<lparr>recognisedPackages = [str ''com.android.chrome''],
      bloatwarePackages =
        [PkgString (str ''com.android.egg''),
         PkgInfo \<lparr>appID = str ''com.android.chrome'', info_appName = Some (str ''Chrome''),
                  info_description = None\<rparr>,
         PkgInfo \<lparr>appID = str ''com.Samsung.bixby'', info_appName = Some [],
                  info_description = Some (str ''Assistant'')\<rparr>]\<rparr>"

definition exampleMetadata :: "js_string \<Rightarrow> MetadataEntry option" where
  "exampleMetadata p =
     (if p = str ''com.Samsung.bixby'' then
        Some \<lparr>meta_appName = None, meta_description = Some [],
              meta_safetyRating = Some Caution, meta_removalImpact = None,
              meta_category = None\<rparr>
      else None)"

definition exampleInput :: js_string where
  "exampleInput = str
     ''package:com.android.egg\<newline>package:com.unknown.test123\<newline> com.android.chrome \<newline>package:com.Samsung.bixby\<newline>\<newline>package:com.android.egg''"

definition exampleInstalled :: "js_string list" where
  "exampleInstalled =
     [str ''com.android.egg'', str ''com.unknown.test123'', str ''com.android.chrome'',
      str ''com.Samsung.bixby'', str ''com.android.egg'']"

definition exampleDetected :: "DetectedPackage list" where
  "exampleDetected =
     [\<lparr>packageName = str ''com.android.egg'', appName = str ''com.android.egg'',
       description = [], safetyRating = None, removalImpact = None, packageCategory = None,
       category = str ''generic'', selected = True\<rparr>,
      \<lparr>packageName = str ''com.unknown.test123'', appName = str ''com.unknown.test123'',
       description = SUSPICIOUS_FALLBACK, safetyRating = None, removalImpact = None,
       packageCategory = None, category = str ''suspicious'', selected = False\<rparr>,
      \<lparr>packageName = str ''com.android.chrome'', appName = str ''com.android.chrome'',
       description = RECOGNISED_FALLBACK, safetyRating = None, removalImpact = None,
       packageCategory = None, category = str ''system'', selected = False\<rparr>,
      \<lparr>packageName = str ''com.Samsung.bixby'', appName = str ''com.Samsung.bixby'',
       description = str ''Assistant'', safetyRating = Some Caution, removalImpact = None,
       packageCategory = None, category = str ''brand'', selected = True\<rparr>]"

text \<open>The application holding the example collection, with a given text pasted.\<close>

definition exampleState :: "js_string \<Rightarrow> AppState" where
  "exampleState input =
     \<lparr>packageInput = input, detectedPackages = exampleDetected, error = None,
      isProcessing = False, currentStep = 2\<rparr>"


chapter \<open>Properties\<close>

section \<open>The worked example, evaluated\<close>

lemma example_parse: "parsePackageList exampleInput = exampleInstalled"
  by code_simp

lemma example_run:
  "detectBloatware toLowerCaseASCII exampleMetadata exampleInstalled exampleData = exampleDetected"
  by code_simp

lemma example_firstSeen:
  "firstSeen exampleInstalled =
     [str ''com.android.egg'', str ''com.unknown.test123'', str ''com.android.chrome'',
      str ''com.Samsung.bixby'']"
  by code_simp

lemma example_membership:
  "str ''com.android.chrome'' \<in> set (recognisedPackages exampleData)"
  "str ''com.android.chrome'' \<in> packageIdOf ` set (bloatwarePackages exampleData)"
  "str ''com.Samsung.bixby'' \<notin> set (recognisedPackages exampleData)"
  "str ''com.Samsung.bixby'' \<in> packageIdOf ` set (bloatwarePackages exampleData)"
  by (simp_all add: exampleData_def packageIdOf_def str_def)


section \<open>Command synthesis\<close>

lemma commandsStep_commands:
  "commands (commandsStep pkg acc) =
     commands acc @ (if selected pkg then removalCommands (packageName pkg) else [])"
  by (simp add: commandsStep_def removalCommands_def Let_def)

lemma commandsLoop_commands:
  "commands (commandsLoop pkgs acc) =
     commands acc @ concat (map (\<lambda>p. removalCommands (packageName p)) (filter selected pkgs))"
  by (induction pkgs arbitrary: acc) (simp_all add: commandsStep_commands)

lemma length_concat_triples:
  "length (concat (map (\<lambda>p. removalCommands (packageName p)) xs)) = 3 * length xs"
  by (induction xs) (simp_all add: removalCommands_def)

text \<open>
  C2. The synthesised commands are, for each selected package in the order of the
  collection (unselected packages skipped), the three commands disable-user, clear,
  uninstall for user 0 on the package identifier, in that order; so their number is
  three times the number of selected packages.
\<close>

theorem commands_three_per_selected:
  "commands (commandsMemo pkgs) =
     concat (map (\<lambda>p. [str ''pm disable-user --user 0 '' @ packageName p,
                          str ''pm clear --user 0 '' @ packageName p,
                          str ''pm uninstall --user 0 '' @ packageName p])
                 (filter selected pkgs))
   \<and> length (commands (commandsMemo pkgs)) = 3 * length (filter selected pkgs)"
proof -
  have eq: "commands (commandsMemo pkgs) =
      concat (map (\<lambda>p. removalCommands (packageName p)) (filter selected pkgs))"
    by (simp add: commandsMemo_def commandsLoop_commands)
  have "length (commands (commandsMemo pkgs)) = 3 * length (filter selected pkgs)"
    unfolding eq by (rule length_concat_triples)
  with eq show ?thesis by (simp add: removalCommands_def)
qed

text \<open>On the example collection, where two packages are selected: six commands.\<close>

theorem commands_three_per_selected_witness:
  "commands (commandsMemo exampleDetected) =
     [str ''pm disable-user --user 0 com.android.egg'',
      str ''pm clear --user 0 com.android.egg'',
      str ''pm uninstall --user 0 com.android.egg'',
      str ''pm disable-user --user 0 com.Samsung.bixby'',
      str ''pm clear --user 0 com.Samsung.bixby'',
      str ''pm uninstall --user 0 com.Samsung.bixby'']
   \<and> length (commands (commandsMemo exampleDetected)) = 3 * 2"
  using commands_three_per_selected[of exampleDetected]
  by (simp add: exampleDetected_def str_def)

section \<open>Classifier\<close>

lemma fst_bloatwareIndex:
  "fst (bloatwareIndex items (S, m)) = S \<union> packageIdOf ` set items"
  by (induction items arbitrary: S m) (auto simp: Let_def split: PackageData.splits)

lemma detectLoop_fst:
  "fst (detectLoop entry ps (d, S)) = d @ map entry (firstSeen (filter (\<lambda>p. p \<notin> S) ps))"
proof (induction ps arbitrary: d S)
  case Nil
  then show ?case by simp
next
  case (Cons p ps)
  have "filter (\<lambda>q. q \<notin> insert p S) ps = filter (\<lambda>y. y \<noteq> p) (filter (\<lambda>p. p \<notin> S) ps)"
    by (induction ps) auto
  with Cons show ?case by simp
qed

lemma set_firstSeen: "set (firstSeen xs) = set xs"
  by (induction xs rule: firstSeen.induct) auto

lemma distinct_firstSeen: "distinct (firstSeen xs)"
  by (induction xs rule: firstSeen.induct) (auto simp: set_firstSeen)

lemma length_firstSeen: "length (firstSeen xs) = card (set xs)"
  by (metis distinct_card distinct_firstSeen set_firstSeen)

lemma firstSeen_append:
  "firstSeen (xs @ ys) = firstSeen xs @ firstSeen (filter (\<lambda>y. y \<notin> set xs) ys)"
proof (induction xs arbitrary: ys rule: firstSeen.induct)
  case 1
  then show ?case by simp
next
  case (2 x xs)
  have "filter (\<lambda>y. y \<notin> set (filter (\<lambda>y. y \<noteq> x) xs)) (filter (\<lambda>y. y \<noteq> x) ys)
      = filter (\<lambda>y. y \<noteq> x \<and> y \<notin> set xs) ys"
    by (induction ys) auto
  with 2[of "filter (\<lambda>y. y \<noteq> x) ys"] show ?case by simp
qed

lemma firstSeen_drop_duplicate:
  "p \<in> set pre \<Longrightarrow> firstSeen (pre @ p # post) = firstSeen (pre @ post)"
  by (simp add: firstSeen_append)


lemma detectBloatware_eq:
  "detectBloatware lower meta installed db =
     map (detectEntry lower meta (set (recognisedPackages db))
            (packageIdOf ` set (bloatwarePackages db))
            (snd (bloatwareIndex (bloatwarePackages db) ({}, Map.empty))))
         (firstSeen installed)"
proof -
  obtain B M where bm: "bloatwareIndex (bloatwarePackages db) ({}, Map.empty) = (B, M)"
    by (cases "bloatwareIndex (bloatwarePackages db) ({}, Map.empty)")
  have "B = packageIdOf ` set (bloatwarePackages db)"
    using fst_bloatwareIndex[of "bloatwarePackages db" "{}" Map.empty] bm by simp
  then show ?thesis
    by (simp add: detectBloatware_def bm detectLoop_fst)
qed

lemma detectEntry_key:
  "packageName (detectEntry lower meta R B M p) = p"
  by (simp add: detectEntry_def Let_def)

lemma detectEntry_decision:
  "(category (detectEntry lower meta R B M p), selected (detectEntry lower meta R B M p)) =
     (if p \<in> R then (str ''system'', False)
      else if p \<in> B then (categorisePackage lower p, True)
      else (str ''suspicious'', False))"
  by (simp add: detectEntry_def Let_def)

subsection \<open>Empty strings in the precedence chains\<close>

lemma orElse_emptyAsAbsent: "orElse (emptyAsAbsent a) b = orElse a b"
  by (simp add: orElse_def emptyAsAbsent_def truthy_def split: option.splits)

lemma orUndef_emptyAsAbsent: "orUndef (emptyAsAbsent a) b = orUndef a b"
  by (simp add: orUndef_def emptyAsAbsent_def truthy_def split: option.splits)

lemma packageIdOf_emptyAsAbsent: "packageIdOf (packageDataEmptyAsAbsent item) = packageIdOf item"
  by (simp add: packageIdOf_def packageDataEmptyAsAbsent_def split: PackageData.splits)

lemma packageDataEmptyAsAbsent_simps:
  "packageDataEmptyAsAbsent (PkgString s) = PkgString s"
  "packageDataEmptyAsAbsent (PkgInfo info) =
     PkgInfo (info\<lparr>info_appName := emptyAsAbsent (info_appName info),
                    info_description := emptyAsAbsent (info_description info)\<rparr>)"
  by (simp_all add: packageDataEmptyAsAbsent_def)

lemma bloatwareIndex_emptyAsAbsent:
  "bloatwareIndex (map packageDataEmptyAsAbsent items) acc = bloatwareIndex items acc"
proof (induction items arbitrary: acc)
  case Nil
  then show ?case by simp
next
  case (Cons item items)
  obtain S m where acc: "acc = (S, m)" by (cases acc)
  show ?case
  proof (cases item)
    case (PkgString s)
    then show ?thesis
      by (simp add: acc Cons.IH packageDataEmptyAsAbsent_simps packageIdOf_def)
  next
    case (PkgInfo info)
    then show ?thesis
      by (simp add: acc Cons.IH packageDataEmptyAsAbsent_simps packageIdOf_def
          orElse_emptyAsAbsent)
  qed
qed

lemma bind_metadataEmptyAsAbsent:
  "Option.bind (map_option metadataEmptyAsAbsent m) meta_appName =
     emptyAsAbsent (Option.bind m meta_appName)"
  "Option.bind (map_option metadataEmptyAsAbsent m) meta_description =
     emptyAsAbsent (Option.bind m meta_description)"
  "Option.bind (map_option metadataEmptyAsAbsent m) meta_safetyRating =
     Option.bind m meta_safetyRating"
  "Option.bind (map_option metadataEmptyAsAbsent m) meta_removalImpact =
     Option.bind m meta_removalImpact"
  "Option.bind (map_option metadataEmptyAsAbsent m) meta_category =
     Option.bind m meta_category"
  by (cases m; simp add: metadataEmptyAsAbsent_def emptyAsAbsent_def)+

lemma detectEntry_emptyAsAbsent:
  "detectEntry lower (\<lambda>p. map_option metadataEmptyAsAbsent (meta p)) R B M =
     detectEntry lower meta R B M"
  by (rule ext) (simp add: detectEntry_def Let_def bind_metadataEmptyAsAbsent
      orElse_emptyAsAbsent orUndef_emptyAsAbsent)

lemma bloatwareRecord_appID: "bloatwareRecord items p = Some info \<Longrightarrow> appID info = p"
  by (induction items) (auto split: option.splits PackageData.splits if_splits)

lemma snd_bloatwareIndex:
  "snd (bloatwareIndex items (S, m)) p =
     (case bloatwareRecord items p of
        None \<Rightarrow> m p
      | Some info \<Rightarrow>
          Some \<lparr>pm_appName = orElse (info_appName info) p,
                pm_description = orElse (info_description info) []\<rparr>)"
proof (induction items arbitrary: S m)
  case Nil
  then show ?case by simp
next
  case (Cons item items)
  show ?case
  proof (cases item)
    case (PkgString s)
    then show ?thesis by (simp add: Cons.IH Let_def split: option.splits)
  next
    case (PkgInfo info)
    then show ?thesis
      by (simp add: Cons.IH packageIdOf_def Let_def split: option.splits)
  qed
qed

lemma orElse_firstPresent: "orElse a d = firstPresent [a] d"
  by (cases a) (simp_all add: orElse_def truthy_def)

lemma chain_appName:
  "orElse (orUndef a (map_option pm_appName
       (map_option (\<lambda>info. \<lparr>pm_appName = orElse (info_appName info) p,
                             pm_description = orElse (info_description info) []\<rparr>) r))) p =
     firstPresent [a, Option.bind r info_appName] p"
proof (cases r)
  case None
  then show ?thesis by (cases a) (simp_all add: orElse_def orUndef_def truthy_def)
next
  case (Some info)
  then show ?thesis
    by (cases a; cases "info_appName info")
      (simp_all add: orElse_def orUndef_def truthy_def)
qed

lemma chain_description:
  "orElse (orUndef a (map_option pm_description
       (map_option (\<lambda>info. \<lparr>pm_appName = orElse (info_appName info) p,
                             pm_description = orElse (info_description info) []\<rparr>) r))) [] =
     firstPresent [a, Option.bind r info_description] []"
proof (cases r)
  case None
  then show ?thesis by (cases a) (simp_all add: orElse_def orUndef_def truthy_def)
next
  case (Some info)
  then show ?thesis
    by (cases a; cases "info_description info")
      (simp_all add: orElse_def orUndef_def truthy_def)
qed

lemma bloatwareMetadataMap_eq:
  "snd (bloatwareIndex items ({}, Map.empty)) p =
     map_option (\<lambda>info. \<lparr>pm_appName = orElse (info_appName info) p,
                           pm_description = orElse (info_description info) []\<rparr>)
       (bloatwareRecord items p)"
  by (simp add: snd_bloatwareIndex split: option.splits)

lemma detectEntry_appName:
  "appName (detectEntry lower meta R B (snd (bloatwareIndex items ({}, Map.empty))) p) =
     (if p \<in> R then firstPresent [Option.bind (meta p) meta_appName] p
      else if p \<in> B then
        firstPresent [Option.bind (meta p) meta_appName,
                      Option.bind (bloatwareRecord items p) info_appName] p
      else firstPresent [Option.bind (meta p) meta_appName] p)"
proof -
  consider "p \<in> R" | "p \<notin> R" "p \<in> B" | "p \<notin> R" "p \<notin> B" by blast
  then show ?thesis
  proof cases
    case 1
    then show ?thesis
      unfolding detectEntry_def Let_def bloatwareMetadataMap_eq
      by (simp only: if_True DetectedPackage.select_convs orElse_firstPresent)
  next
    case 2
    then show ?thesis
      unfolding detectEntry_def Let_def bloatwareMetadataMap_eq
      by (simp only: if_True if_False DetectedPackage.select_convs chain_appName)
  next
    case 3
    then show ?thesis
      unfolding detectEntry_def Let_def bloatwareMetadataMap_eq
      by (simp only: if_False DetectedPackage.select_convs orElse_firstPresent)
  qed
qed

lemma detectEntry_description:
  "description (detectEntry lower meta R B (snd (bloatwareIndex items ({}, Map.empty))) p) =
     (if p \<in> R then firstPresent [Option.bind (meta p) meta_description] RECOGNISED_FALLBACK
      else if p \<in> B then
        firstPresent [Option.bind (meta p) meta_description,
                      Option.bind (bloatwareRecord items p) info_description] []
      else firstPresent [Option.bind (meta p) meta_description] SUSPICIOUS_FALLBACK)"
proof -
  consider "p \<in> R" | "p \<notin> R" "p \<in> B" | "p \<notin> R" "p \<notin> B" by blast
  then show ?thesis
  proof cases
    case 1
    then show ?thesis
      unfolding detectEntry_def Let_def bloatwareMetadataMap_eq
      by (simp only: if_True DetectedPackage.select_convs orElse_firstPresent)
  next
    case 2
    then show ?thesis
      unfolding detectEntry_def Let_def bloatwareMetadataMap_eq
      by (simp only: if_True if_False DetectedPackage.select_convs chain_description)
  next
    case 3
    then show ?thesis
      unfolding detectEntry_def Let_def bloatwareMetadataMap_eq
      by (simp only: if_False DetectedPackage.select_convs orElse_firstPresent)
  qed
qed

lemma firstPresent_emptyAsAbsent:
  "firstPresent (map emptyAsAbsent sources) fallback = firstPresent sources fallback"
  by (induction sources fallback rule: firstPresent.induct) (simp_all add: emptyAsAbsent_def)

text \<open>
  C10. The \<open>appName\<close> and the \<open>description\<close> of every entry are the first source
  of their chain that is present and not the empty string: for \<open>appName\<close> the
  metadata name, then (bloatware branch only) the name of the database record, then the
  identifier itself; for \<open>description\<close> the metadata description, then (bloatware
  branch only) the description of the database record, then the fallback of the branch
  (the empty string in the bloatware branch). An empty string is passed over exactly as
  an absent source is, and a non-empty source is taken. Hence replacing every empty
  \<open>appName\<close> and \<open>description\<close> of the metadata and of the bloatware records by an
  absent one leaves the whole output of the classifier unchanged.
\<close>

theorem precedence_chains_skip_empty:
  "map (\<lambda>d. (packageName d, appName d, description d))
       (detectBloatware toLowerCase getPackageMetadata installedPackages deviceData) =
   map (\<lambda>p. (p,
          if p \<in> set (recognisedPackages deviceData) then
            (firstPresent [Option.bind (getPackageMetadata p) meta_appName] p,
             firstPresent [Option.bind (getPackageMetadata p) meta_description]
               RECOGNISED_FALLBACK)
          else if p \<in> packageIdOf ` set (bloatwarePackages deviceData) then
            (firstPresent
               [Option.bind (getPackageMetadata p) meta_appName,
                Option.bind (bloatwareRecord (bloatwarePackages deviceData) p) info_appName] p,
             firstPresent
               [Option.bind (getPackageMetadata p) meta_description,
                Option.bind (bloatwareRecord (bloatwarePackages deviceData) p) info_description]
               [])
          else
            (firstPresent [Option.bind (getPackageMetadata p) meta_appName] p,
             firstPresent [Option.bind (getPackageMetadata p) meta_description]
               SUSPICIOUS_FALLBACK)))
       (firstSeen installedPackages)
   \<and> firstPresent (Some [] # sources) fallback = firstPresent (None # sources) fallback
   \<and> firstPresent (None # sources) fallback = firstPresent sources fallback
   \<and> firstPresent [] fallback = fallback
   \<and> firstPresent (Some (c # s) # sources) fallback = c # s
   \<and> detectBloatware toLowerCase
        (\<lambda>p. map_option metadataEmptyAsAbsent (getPackageMetadata p))
        installedPackages
        (deviceData\<lparr>bloatwarePackages :=
            map packageDataEmptyAsAbsent (bloatwarePackages deviceData)\<rparr>)
      = detectBloatware toLowerCase getPackageMetadata installedPackages deviceData"
proof -
  let ?e = "detectEntry toLowerCase getPackageMetadata (set (recognisedPackages deviceData))
            (packageIdOf ` set (bloatwarePackages deviceData))
            (snd (bloatwareIndex (bloatwarePackages deviceData) ({}, Map.empty)))"
  have one: "(packageName (?e p), appName (?e p), description (?e p)) =
      (p,
          if p \<in> set (recognisedPackages deviceData) then
            (firstPresent [Option.bind (getPackageMetadata p) meta_appName] p,
             firstPresent [Option.bind (getPackageMetadata p) meta_description]
               RECOGNISED_FALLBACK)
          else if p \<in> packageIdOf ` set (bloatwarePackages deviceData) then
            (firstPresent
               [Option.bind (getPackageMetadata p) meta_appName,
                Option.bind (bloatwareRecord (bloatwarePackages deviceData) p) info_appName] p,
             firstPresent
               [Option.bind (getPackageMetadata p) meta_description,
                Option.bind (bloatwareRecord (bloatwarePackages deviceData) p) info_description]
               [])
          else
            (firstPresent [Option.bind (getPackageMetadata p) meta_appName] p,
             firstPresent [Option.bind (getPackageMetadata p) meta_description]
               SUSPICIOUS_FALLBACK))" for p
    by (simp add: detectEntry_key detectEntry_appName detectEntry_description)
  have chains: "map (\<lambda>d. (packageName d, appName d, description d))
       (detectBloatware toLowerCase getPackageMetadata installedPackages deviceData) =
     map (\<lambda>p. (packageName (?e p), appName (?e p), description (?e p)))
       (firstSeen installedPackages)"
    unfolding detectBloatware_eq map_map comp_def ..
  have inv: "detectBloatware toLowerCase
        (\<lambda>p. map_option metadataEmptyAsAbsent (getPackageMetadata p))
        installedPackages
        (deviceData\<lparr>bloatwarePackages :=
            map packageDataEmptyAsAbsent (bloatwarePackages deviceData)\<rparr>)
      = detectBloatware toLowerCase getPackageMetadata installedPackages deviceData"
    by (simp add: detectBloatware_def bloatwareIndex_emptyAsAbsent detectEntry_emptyAsAbsent
      split: prod.splits)
  from chains inv show ?thesis unfolding one by simp
qed

text \<open>On the example: the empty name of the record of \<open>com.Samsung.bixby\<close> gives way to
  the identifier, its empty metadata description to the description of the record.\<close>

theorem precedence_chains_skip_empty_witness:
  "map (\<lambda>d. (packageName d, appName d, description d))
       (detectBloatware toLowerCaseASCII exampleMetadata exampleInstalled exampleData) =
     [(str ''com.android.egg'', str ''com.android.egg'', []),
      (str ''com.unknown.test123'', str ''com.unknown.test123'', SUSPICIOUS_FALLBACK),
      (str ''com.android.chrome'', str ''com.android.chrome'', RECOGNISED_FALLBACK),
      (str ''com.Samsung.bixby'', str ''com.Samsung.bixby'', str ''Assistant'')]
   \<and> Option.bind (exampleMetadata (str ''com.Samsung.bixby'')) meta_appName = None
   \<and> Option.bind (bloatwareRecord (bloatwarePackages exampleData) (str ''com.Samsung.bixby''))
        info_appName = Some []
   \<and> Option.bind (exampleMetadata (str ''com.Samsung.bixby'')) meta_description = Some []
   \<and> Option.bind (bloatwareRecord (bloatwarePackages exampleData) (str ''com.Samsung.bixby''))
        info_description = Some (str ''Assistant'')"
proof -
  note T = precedence_chains_skip_empty[of toLowerCaseASCII exampleMetadata exampleInstalled
      exampleData]
  have ev: "map (\<lambda>p. (p,
          if p \<in> set (recognisedPackages exampleData) then
            (firstPresent [Option.bind (exampleMetadata p) meta_appName] p,
             firstPresent [Option.bind (exampleMetadata p) meta_description]
               RECOGNISED_FALLBACK)
          else if p \<in> packageIdOf ` set (bloatwarePackages exampleData) then
            (firstPresent
               [Option.bind (exampleMetadata p) meta_appName,
                Option.bind (bloatwareRecord (bloatwarePackages exampleData) p) info_appName] p,
             firstPresent
               [Option.bind (exampleMetadata p) meta_description,
                Option.bind (bloatwareRecord (bloatwarePackages exampleData) p) info_description]
               [])
          else
            (firstPresent [Option.bind (exampleMetadata p) meta_appName] p,
             firstPresent [Option.bind (exampleMetadata p) meta_description]
               SUSPICIOUS_FALLBACK)))
       (firstSeen exampleInstalled) =
     [(str ''com.android.egg'', str ''com.android.egg'', []),
      (str ''com.unknown.test123'', str ''com.unknown.test123'', SUSPICIOUS_FALLBACK),
      (str ''com.android.chrome'', str ''com.android.chrome'', RECOGNISED_FALLBACK),
      (str ''com.Samsung.bixby'', str ''com.Samsung.bixby'', str ''Assistant'')]"
    by code_simp
  have chains: "map (\<lambda>d. (packageName d, appName d, description d))
       (detectBloatware toLowerCaseASCII exampleMetadata exampleInstalled exampleData) =
     [(str ''com.android.egg'', str ''com.android.egg'', []),
      (str ''com.unknown.test123'', str ''com.unknown.test123'', SUSPICIOUS_FALLBACK),
      (str ''com.android.chrome'', str ''com.android.chrome'', RECOGNISED_FALLBACK),
      (str ''com.Samsung.bixby'', str ''com.Samsung.bixby'', str ''Assistant'')]"
    using T[THEN conjunct1] ev by (rule trans)
  have src:
    "Option.bind (exampleMetadata (str ''com.Samsung.bixby'')) meta_appName = None"
    "Option.bind (bloatwareRecord (bloatwarePackages exampleData) (str ''com.Samsung.bixby''))
        info_appName = Some []"
    "Option.bind (exampleMetadata (str ''com.Samsung.bixby'')) meta_description = Some []"
    "Option.bind (bloatwareRecord (bloatwarePackages exampleData) (str ''com.Samsung.bixby''))
        info_description = Some (str ''Assistant'')"
    by (simp_all add: exampleMetadata_def exampleData_def str_def)
  from chains src show ?thesis by blast
qed

subsection \<open>The decision procedure\<close>

text \<open>
  C1. On the distinct identifiers of the input, in the order of their first occurrence,
  the classifier decides in three steps, the first match winning: a member of
  \<open>recognisedPackages\<close> gets category \<open>system\<close> and is not selected; otherwise a member
  of \<open>bloatwarePackages\<close> is selected and gets the category of the prefix
  classification; otherwise the category is \<open>suspicious\<close> and the package is not
  selected. In particular an identifier in both sets is \<open>system\<close>.
\<close>

theorem detectBloatware_three_steps:
  "map (\<lambda>d. (packageName d, category d, selected d))
       (detectBloatware lower meta installed db) =
   map (\<lambda>p. (p,
          if p \<in> set (recognisedPackages db) then (str ''system'', False)
          else if p \<in> packageIdOf ` set (bloatwarePackages db)
               then (categorisePackage lower p, True)
          else (str ''suspicious'', False)))
       (firstSeen installed)
   \<and> (\<forall>d \<in> set (detectBloatware lower meta installed db).
         packageName d \<in> set (recognisedPackages db) \<and>
         packageName d \<in> packageIdOf ` set (bloatwarePackages db) \<longrightarrow>
         category d = str ''system'' \<and> \<not> selected d)"
proof -
  let ?e = "detectEntry lower meta (set (recognisedPackages db))
            (packageIdOf ` set (bloatwarePackages db))
            (snd (bloatwareIndex (bloatwarePackages db) ({}, Map.empty)))"
  have out: "detectBloatware lower meta installed db = map ?e (firstSeen installed)"
    by (rule detectBloatware_eq)
  have one: "(packageName (?e p), category (?e p), selected (?e p)) =
      (p, if p \<in> set (recognisedPackages db) then (str ''system'', False)
          else if p \<in> packageIdOf ` set (bloatwarePackages db)
               then (categorisePackage lower p, True)
          else (str ''suspicious'', False))" for p
    using detectEntry_decision[of lower meta _ _ _ p] by (simp add: detectEntry_key)
  have first: "map (\<lambda>d. (packageName d, category d, selected d))
       (detectBloatware lower meta installed db) =
   map (\<lambda>p. (p,
          if p \<in> set (recognisedPackages db) then (str ''system'', False)
          else if p \<in> packageIdOf ` set (bloatwarePackages db)
               then (categorisePackage lower p, True)
          else (str ''suspicious'', False)))
       (firstSeen installed)"
    unfolding out map_map comp_def one ..
  have second: "category d = str ''system'' \<and> \<not> selected d"
    if "d \<in> set (detectBloatware lower meta installed db)"
       "packageName d \<in> set (recognisedPackages db)" for d
  proof -
    from that(1) obtain p where d: "d = ?e p" unfolding out by auto
    with that(2) have "p \<in> set (recognisedPackages db)" by (simp add: detectEntry_key)
    with one[of p] d show ?thesis by simp
  qed
  from first second show ?thesis by blast
qed

text \<open>On the example: \<open>com.android.chrome\<close> is in both sets and comes out as \<open>system\<close>.\<close>

theorem detectBloatware_three_steps_witness:
  "map (\<lambda>d. (packageName d, category d, selected d))
       (detectBloatware toLowerCaseASCII exampleMetadata exampleInstalled exampleData) =
     [(str ''com.android.egg'', str ''generic'', True),
      (str ''com.unknown.test123'', str ''suspicious'', False),
      (str ''com.android.chrome'', str ''system'', False),
      (str ''com.Samsung.bixby'', str ''brand'', True)]
   \<and> exampleDetected ! 2 \<in>
       set (detectBloatware toLowerCaseASCII exampleMetadata exampleInstalled exampleData)
   \<and> packageName (exampleDetected ! 2) \<in> set (recognisedPackages exampleData)
   \<and> packageName (exampleDetected ! 2) \<in> packageIdOf ` set (bloatwarePackages exampleData)
   \<and> category (exampleDetected ! 2) = str ''system''
   \<and> \<not> selected (exampleDetected ! 2)"
proof -
  note T = detectBloatware_three_steps[of toLowerCaseASCII exampleMetadata exampleInstalled
      exampleData]
  have ev: "map (\<lambda>p. (p,
          if p \<in> set (recognisedPackages exampleData) then (str ''system'', False)
          else if p \<in> packageIdOf ` set (bloatwarePackages exampleData)
               then (categorisePackage toLowerCaseASCII p, True)
          else (str ''suspicious'', False)))
       (firstSeen exampleInstalled) =
     [(str ''com.android.egg'', str ''generic'', True),
      (str ''com.unknown.test123'', str ''suspicious'', False),
      (str ''com.android.chrome'', str ''system'', False),
      (str ''com.Samsung.bixby'', str ''brand'', True)]"
    by code_simp
  have one: "map (\<lambda>d. (packageName d, category d, selected d))
       (detectBloatware toLowerCaseASCII exampleMetadata exampleInstalled exampleData) =
     [(str ''com.android.egg'', str ''generic'', True),
      (str ''com.unknown.test123'', str ''suspicious'', False),
      (str ''com.android.chrome'', str ''system'', False),
      (str ''com.Samsung.bixby'', str ''brand'', True)]"
    using T[THEN conjunct1] ev by (rule trans)
  have mem: "exampleDetected ! 2 \<in>
       set (detectBloatware toLowerCaseASCII exampleMetadata exampleInstalled exampleData)"
    unfolding example_run by (simp add: exampleDetected_def)
  have name: "packageName (exampleDetected ! 2) = str ''com.android.chrome''"
    by (simp add: exampleDetected_def)
  have hyp: "packageName (exampleDetected ! 2) \<in> set (recognisedPackages exampleData)
      \<and> packageName (exampleDetected ! 2) \<in> packageIdOf ` set (bloatwarePackages exampleData)"
    unfolding name using example_membership(1,2) ..
  from T[THEN conjunct2, THEN bspec, OF mem] hyp
  have "category (exampleDetected ! 2) = str ''system'' \<and> \<not> selected (exampleDetected ! 2)"
    by (rule mp)
  with one mem hyp show ?thesis by blast
qed

text \<open>
  C4. The output has exactly one entry per distinct identifier of the input, in the
  order of first occurrence; removing a later duplicate occurrence from the input does
  not change the output.
\<close>

theorem detectBloatware_first_seen:
  "map packageName (detectBloatware lower meta installed db) = firstSeen installed
   \<and> distinct (map packageName (detectBloatware lower meta installed db))
   \<and> set (map packageName (detectBloatware lower meta installed db)) = set installed
   \<and> length (detectBloatware lower meta installed db) = card (set installed)
   \<and> (\<forall>pre p post. installed = pre @ p # post \<and> p \<in> set pre \<longrightarrow>
         detectBloatware lower meta (pre @ post) db = detectBloatware lower meta installed db)"
proof -
  have names: "map packageName (detectBloatware lower meta installed db) = firstSeen installed"
    unfolding detectBloatware_eq map_map comp_def detectEntry_key by simp
  have len: "length (detectBloatware lower meta installed db) = card (set installed)"
    unfolding detectBloatware_eq by (simp add: length_firstSeen)
  have dup: "detectBloatware lower meta (pre @ post) db = detectBloatware lower meta installed db"
    if "installed = pre @ p # post" "p \<in> set pre" for pre p post
    unfolding detectBloatware_eq that(1) using that(2) by (simp add: firstSeen_drop_duplicate)
  from names len dup show ?thesis
    by (simp add: distinct_firstSeen set_firstSeen)
qed


text \<open>On the example: the second \<open>com.android.egg\<close> is dropped.\<close>

theorem detectBloatware_first_seen_witness:
  "map packageName
       (detectBloatware toLowerCaseASCII exampleMetadata exampleInstalled exampleData) =
     [str ''com.android.egg'', str ''com.unknown.test123'', str ''com.android.chrome'',
      str ''com.Samsung.bixby'']
   \<and> exampleInstalled =
       [str ''com.android.egg'', str ''com.unknown.test123'', str ''com.android.chrome'',
        str ''com.Samsung.bixby''] @ str ''com.android.egg'' # []
   \<and> str ''com.android.egg'' \<in>
       set [str ''com.android.egg'', str ''com.unknown.test123'', str ''com.android.chrome'',
            str ''com.Samsung.bixby'']
   \<and> detectBloatware toLowerCaseASCII exampleMetadata
        ([str ''com.android.egg'', str ''com.unknown.test123'', str ''com.android.chrome'',
          str ''com.Samsung.bixby''] @ []) exampleData =
       detectBloatware toLowerCaseASCII exampleMetadata exampleInstalled exampleData"
proof -
  note T = detectBloatware_first_seen[of toLowerCaseASCII exampleMetadata exampleInstalled
      exampleData]
  let ?pre = "[str ''com.android.egg'', str ''com.unknown.test123'', str ''com.android.chrome'',
        str ''com.Samsung.bixby'']"
  have names: "map packageName
       (detectBloatware toLowerCaseASCII exampleMetadata exampleInstalled exampleData) = ?pre"
    using T[THEN conjunct1] example_firstSeen by (rule trans)
  have hyp: "exampleInstalled = ?pre @ str ''com.android.egg'' # []
      \<and> str ''com.android.egg'' \<in> set ?pre"
    by (simp add: exampleInstalled_def)
  from T have "\<forall>pre p post. exampleInstalled = pre @ p # post \<and> p \<in> set pre \<longrightarrow>
         detectBloatware toLowerCaseASCII exampleMetadata (pre @ post) exampleData =
         detectBloatware toLowerCaseASCII exampleMetadata exampleInstalled exampleData"
    by blast
  then have "exampleInstalled = ?pre @ str ''com.android.egg'' # []
      \<and> str ''com.android.egg'' \<in> set ?pre \<longrightarrow>
         detectBloatware toLowerCaseASCII exampleMetadata (?pre @ []) exampleData =
         detectBloatware toLowerCaseASCII exampleMetadata exampleInstalled exampleData"
    by blast
  with hyp have "detectBloatware toLowerCaseASCII exampleMetadata (?pre @ []) exampleData =
         detectBloatware toLowerCaseASCII exampleMetadata exampleInstalled exampleData"
    by (rule rev_mp)
  with names hyp show ?thesis by blast
qed

subsection \<open>Prefix classification\<close>

lemma startsWith_prefix: "startsWith s p \<longleftrightarrow> prefix p s"
  unfolding startsWith_def
  by (metis append_eq_conv_conj prefix_def take_is_prefix)

lemma categorisePackage_prefix:
  "categorisePackage lower p =
     (if \<exists>q\<in>set BRAND_PREFIXES. prefix q (lower p) then str ''brand''
      else if \<exists>q\<in>set CHIPSET_PREFIXES. prefix q (lower p) then str ''chipset''
      else str ''generic'')"
  by (simp add: categorisePackage_def Let_def list_ex_iff startsWith_prefix)

text \<open>
  C5. An entry made by the bloatware branch has category \<open>brand\<close> when the lower-cased
  identifier begins with one of the brand prefixes, whatever the chipset prefixes say;
  otherwise \<open>chipset\<close> when it begins with one of the chipset prefixes; otherwise
  \<open>generic\<close>. Identifiers with the same lower-cased form are categorised alike.
\<close>

theorem prefix_classification:
  "(\<forall>d \<in> set (detectBloatware lower meta installed db).
      packageName d \<notin> set (recognisedPackages db) \<and>
      packageName d \<in> packageIdOf ` set (bloatwarePackages db) \<longrightarrow>
      category d =
        (if \<exists>q\<in>set BRAND_PREFIXES. prefix q (lower (packageName d)) then str ''brand''
         else if \<exists>q\<in>set CHIPSET_PREFIXES. prefix q (lower (packageName d)) then str ''chipset''
         else str ''generic''))
   \<and> (\<forall>p p'. lower p = lower p' \<longrightarrow> categorisePackage lower p = categorisePackage lower p')"
proof -
  have "category d =
        (if \<exists>q\<in>set BRAND_PREFIXES. prefix q (lower (packageName d)) then str ''brand''
         else if \<exists>q\<in>set CHIPSET_PREFIXES. prefix q (lower (packageName d)) then str ''chipset''
         else str ''generic'')"
    if d: "d \<in> set (detectBloatware lower meta installed db)"
      and nr: "packageName d \<notin> set (recognisedPackages db)"
      and b: "packageName d \<in> packageIdOf ` set (bloatwarePackages db)" for d
  proof -
    from d obtain p where p: "d = detectEntry lower meta (set (recognisedPackages db))
            (packageIdOf ` set (bloatwarePackages db))
            (snd (bloatwareIndex (bloatwarePackages db) ({}, Map.empty))) p"
      unfolding detectBloatware_eq by auto
    then have name: "packageName d = p" by (simp add: detectEntry_key)
    from nr b have "category d = categorisePackage lower p"
      unfolding name unfolding p by (simp add: detectEntry_def Let_def)
    then show ?thesis by (simp add: categorisePackage_prefix name)
  qed
  moreover have "categorisePackage lower p = categorisePackage lower p'"
    if "lower p = lower p'" for p p'
    using that by (simp add: categorisePackage_def)
  ultimately show ?thesis by blast
qed


text \<open>On the example, with ASCII lower-casing: \<open>com.Samsung.bixby\<close> is \<open>brand\<close>.\<close>

theorem prefix_classification_witness:
  "exampleDetected ! 3 \<in>
     set (detectBloatware toLowerCaseASCII exampleMetadata exampleInstalled exampleData)
   \<and> packageName (exampleDetected ! 3) \<notin> set (recognisedPackages exampleData)
   \<and> packageName (exampleDetected ! 3) \<in> packageIdOf ` set (bloatwarePackages exampleData)
   \<and> prefix (str ''com.samsung.'') (toLowerCaseASCII (packageName (exampleDetected ! 3)))
   \<and> category (exampleDetected ! 3) = str ''brand''
   \<and> toLowerCaseASCII (str ''COM.SAMSUNG.BIXBY'') = toLowerCaseASCII (str ''com.Samsung.bixby'')
   \<and> categorisePackage toLowerCaseASCII (str ''COM.SAMSUNG.BIXBY'') =
       categorisePackage toLowerCaseASCII (str ''com.Samsung.bixby'')"
proof -
  note T = prefix_classification[of toLowerCaseASCII exampleMetadata exampleInstalled exampleData]
  have mem: "exampleDetected ! 3 \<in>
       set (detectBloatware toLowerCaseASCII exampleMetadata exampleInstalled exampleData)"
    unfolding example_run by (simp add: exampleDetected_def)
  have name: "packageName (exampleDetected ! 3) = str ''com.Samsung.bixby''"
    by (simp add: exampleDetected_def)
  have hyp: "packageName (exampleDetected ! 3) \<notin> set (recognisedPackages exampleData)
      \<and> packageName (exampleDetected ! 3) \<in> packageIdOf ` set (bloatwarePackages exampleData)"
    unfolding name using example_membership(3,4) ..
  have pre: "prefix (str ''com.samsung.'') (toLowerCaseASCII (str ''com.Samsung.bixby''))"
    by code_simp
  have br: "str ''com.samsung.'' \<in> set BRAND_PREFIXES"
    by (simp add: BRAND_PREFIXES_def)
  from T[THEN conjunct1, THEN bspec, OF mem] hyp
  have "category (exampleDetected ! 3) =
        (if \<exists>q\<in>set BRAND_PREFIXES. prefix q (toLowerCaseASCII (packageName (exampleDetected ! 3)))
         then str ''brand''
         else if \<exists>q\<in>set CHIPSET_PREFIXES.
                   prefix q (toLowerCaseASCII (packageName (exampleDetected ! 3)))
         then str ''chipset''
         else str ''generic'')"
    by (rule mp)
  moreover have "\<exists>q\<in>set BRAND_PREFIXES.
      prefix q (toLowerCaseASCII (packageName (exampleDetected ! 3)))"
    unfolding name using br pre by blast
  ultimately have cat: "category (exampleDetected ! 3) = str ''brand''" by simp
  have low: "toLowerCaseASCII (str ''COM.SAMSUNG.BIXBY'') =
      toLowerCaseASCII (str ''com.Samsung.bixby'')"
    by code_simp
  from T[THEN conjunct2] low
  have "categorisePackage toLowerCaseASCII (str ''COM.SAMSUNG.BIXBY'') =
       categorisePackage toLowerCaseASCII (str ''com.Samsung.bixby'')"
    by blast
  with mem hyp pre cat low show ?thesis unfolding name by blast
qed

section \<open>Input normaliser\<close>

lemma dropWhile_Nil_iff: "dropWhile P xs = [] \<longleftrightarrow> (\<forall>x\<in>set xs. P x)"
  by (induction xs) auto

lemma package_prefix_facts:
  "length (str ''package:'') = 8"
  "str ''package:'' \<noteq> []"
  "\<not> isWhiteSpace (hd (str ''package:''))"
  by (simp_all add: str_def isWhiteSpace_def)

lemma isWhiteSpace_LF: "isWhiteSpace LF"
  by (simp add: isWhiteSpace_def LF_def)

subsection \<open>trim\<close>

lemma trimEnd_snoc:
  "trimEnd (s @ [c]) = (if isWhiteSpace c then trimEnd s else s @ [c])"
  by (simp add: trimEnd_def)

lemma trimEnd_Nil_iff: "trimEnd s = [] \<longleftrightarrow> (\<forall>c\<in>set s. isWhiteSpace c)"
  by (simp add: trimEnd_def dropWhile_Nil_iff)

lemma trimEnd_prefix: "prefix (trimEnd s) s"
  by (induction s rule: rev_induct) (auto simp: trimEnd_snoc trimEnd_def)

lemma trimEnd_last: "trimEnd s \<noteq> [] \<Longrightarrow> \<not> isWhiteSpace (last (trimEnd s))"
  by (induction s rule: rev_induct) (auto simp: trimEnd_snoc trimEnd_def)

lemma trimStart_hd: "trimStart s \<noteq> [] \<Longrightarrow> \<not> isWhiteSpace (hd (trimStart s))"
  unfolding trimStart_def by (rule hd_dropWhile)

lemma trim_hd: "trim s \<noteq> [] \<Longrightarrow> \<not> isWhiteSpace (hd (trim s))"
proof -
  assume ne: "trim s \<noteq> []"
  obtain r where r: "trimStart s = trim s @ r"
    using trimEnd_prefix[of "trimStart s"] unfolding trim_def prefix_def by blast
  with ne have "hd (trim s) = hd (trimStart s)" by simp
  moreover from r ne have "trimStart s \<noteq> []" by auto
  ultimately show ?thesis using trimStart_hd by simp
qed

lemma trim_last: "trim s \<noteq> [] \<Longrightarrow> \<not> isWhiteSpace (last (trim s))"
  unfolding trim_def by (rule trimEnd_last)

lemma set_trim: "set (trim s) \<subseteq> set s"
proof -
  have "set (trimEnd t) \<subseteq> set t" for t
    using trimEnd_prefix[of t] by (auto simp: prefix_def) (metis Un_iff set_append)
  then have "set (trim s) \<subseteq> set (trimStart s)" by (simp add: trim_def)
  also have "\<dots> \<subseteq> set s" unfolding trimStart_def by (auto dest: set_dropWhileD)
  finally show ?thesis .
qed

lemma trim_Nil [simp]: "trim [] = []"
  by (simp add: trim_def trimEnd_def trimStart_def)

lemma trim_id:
  assumes "x \<noteq> []" "\<not> isWhiteSpace (hd x)" "\<not> isWhiteSpace (last x)"
  shows "trim x = x"
proof -
  from assms(1,2) have "trimStart x = x" by (cases x) (simp_all add: trimStart_def)
  moreover from assms(1,3) have "trimEnd x = x"
    by (cases x rule: rev_cases) (simp_all add: trimEnd_snoc)
  ultimately show ?thesis by (simp add: trim_def)
qed

lemma length_trim: "length (trim s) \<le> length s"
proof -
  have "length (trimEnd t) \<le> length t" for t
    using trimEnd_prefix[of t] by (rule prefix_length_le)
  then have "length (trim s) \<le> length (trimStart s)" by (simp add: trim_def)
  also have "\<dots> \<le> length s" by (simp add: trimStart_def length_dropWhile_le)
  finally show ?thesis .
qed

lemma length_trim_less:
  assumes "x \<noteq> []" "isWhiteSpace (hd x)"
  shows "length (trim x) < length x"
proof -
  have "length (trimEnd t) \<le> length t" for t
    using trimEnd_prefix[of t] by (rule prefix_length_le)
  then have "length (trim x) \<le> length (trimStart x)" by (simp add: trim_def)
  also from assms have "\<dots> < length x"
    by (cases x) (simp_all add: trimStart_def le_imp_less_Suc length_dropWhile_le)
  finally show ?thesis .
qed

lemma trim_cons_ws: "isWhiteSpace c \<Longrightarrow> trim (c # l) = trim l"
  by (simp add: trim_def trimStart_def)

lemma trim_snoc_ws: "isWhiteSpace c \<Longrightarrow> trim (l @ [c]) = trim l"
proof (cases "\<forall>x\<in>set l. isWhiteSpace x")
  case True
  assume "isWhiteSpace c"
  with True have "trimStart (l @ [c]) = []" "trimStart l = []"
    by (simp_all add: trimStart_def dropWhile_Nil_iff)
  then show ?thesis by (simp add: trim_def trimEnd_def)
next
  case False
  assume c: "isWhiteSpace c"
  from False have "trimStart (l @ [c]) = trimStart l @ [c]"
    unfolding trimStart_def by (auto simp: dropWhile_append1)
  with c show ?thesis by (simp add: trim_def trimEnd_snoc)
qed

subsection \<open>split and join\<close>

lemma splitLines_nonempty [simp]: "splitLines s \<noteq> []"
  by (induction s) (auto split: list.splits)

lemma splitLines_no_LF: "l \<in> set (splitLines s) \<Longrightarrow> LF \<notin> set l"
  by (induction s arbitrary: l) (auto split: list.splits if_splits)

lemma splitLines_snoc:
  "splitLines (s @ [c]) =
     (if c = LF then splitLines s @ [[]]
      else butlast (splitLines s) @ [last (splitLines s) @ [c]])"
proof (induction s)
  case Nil
  then show ?case by simp
next
  case (Cons a s)
  obtain l ls where sp: "splitLines s = l # ls" by (cases "splitLines s") simp_all
  obtain l' ls' where sp': "splitLines (s @ [c]) = l' # ls'"
    by (cases "splitLines (s @ [c])") simp_all
  from Cons sp sp' show ?case
    by (cases ls) (auto split: if_splits)
qed

lemma splitLines_line: "LF \<notin> set x \<Longrightarrow> splitLines x = [x]"
  by (induction x) auto

lemma splitLines_line_LF: "LF \<notin> set x \<Longrightarrow> splitLines (x @ LF # r) = x # splitLines r"
  by (induction x) auto

lemma splitLines_joinLines:
  "ls \<noteq> [] \<Longrightarrow> \<forall>l\<in>set ls. LF \<notin> set l \<Longrightarrow> splitLines (joinLines ls) = ls"
  by (induction ls rule: joinLines.induct) (simp_all add: splitLines_line splitLines_line_LF)

lemma hd_joinLines: "ls \<noteq> [] \<Longrightarrow> hd ls \<noteq> [] \<Longrightarrow> hd (joinLines ls) = hd (hd ls)"
  by (induction ls rule: joinLines.induct) simp_all

lemma joinLines_Nil_iff: "joinLines ls = [] \<longleftrightarrow> ls = [] \<or> ls = [[]]"
  by (induction ls rule: joinLines.induct) simp_all

lemma last_joinLines: "ls \<noteq> [] \<Longrightarrow> last ls \<noteq> [] \<Longrightarrow> last (joinLines ls) = last (last ls)"
  by (induction ls rule: joinLines.induct) (auto simp: joinLines_Nil_iff split: if_splits)


subsection \<open>Trimming the whole input first changes nothing\<close>

lemma lines_trimStart:
  "filter truthy (map trim (splitLines (trimStart s))) = filter truthy (map trim (splitLines s))"
proof (induction s)
  case Nil
  then show ?case by (simp add: trimStart_def)
next
  case (Cons c s)
  show ?case
  proof (cases "isWhiteSpace c")
    case False
    then show ?thesis by (simp add: trimStart_def)
  next
    case True
    then have ts: "trimStart (c # s) = trimStart s" by (simp add: trimStart_def)
    obtain l ls where sp: "splitLines s = l # ls" by (cases "splitLines s") simp_all
    have "filter truthy (map trim (splitLines (c # s))) =
        filter truthy (map trim (splitLines s))"
      using True by (simp add: sp trim_cons_ws truthy_def)
    with Cons ts show ?thesis by simp
  qed
qed

lemma lines_trimEnd:
  "filter truthy (map trim (splitLines (trimEnd s))) = filter truthy (map trim (splitLines s))"
proof (induction s rule: rev_induct)
  case Nil
  then show ?case by (simp add: trimEnd_def)
next
  case (snoc c s)
  show ?case
  proof (cases "isWhiteSpace c")
    case False
    then show ?thesis by (simp add: trimEnd_snoc)
  next
    case True
    obtain b l where sp: "splitLines s = b @ [l]"
      by (cases "splitLines s" rule: rev_cases) simp_all
    have "filter truthy (map trim (splitLines (s @ [c]))) =
        filter truthy (map trim (splitLines s))"
      using True by (simp add: splitLines_snoc sp trim_snoc_ws truthy_def)
    with snoc True show ?thesis by (simp add: trimEnd_snoc)
  qed
qed

lemma lines_trim:
  "filter truthy (map trim (splitLines (trim s))) = filter truthy (map trim (splitLines s))"
  by (simp add: trim_def lines_trimEnd lines_trimStart)

lemma stripPackagePrefix_Nil [simp]: "stripPackagePrefix [] = []"
  by (simp add: stripPackagePrefix_def slice_def)

lemma parsePackageList_lines:
  "parsePackageList input =
     map (\<lambda>l. stripPackagePrefix (trim l))
       (filter (\<lambda>l. stripPackagePrefix (trim l) \<noteq> []) (splitLines input))"
proof -
  have "filter truthy (map stripPackagePrefix (filter truthy (map trim ls))) =
      map (\<lambda>l. stripPackagePrefix (trim l))
        (filter (\<lambda>l. stripPackagePrefix (trim l) \<noteq> []) ls)" for ls
    by (induction ls) (auto simp: truthy_def)
  then show ?thesis by (simp add: parsePackageList_def lines_trim)
qed

lemma stripPackagePrefix_cases:
  "stripPackagePrefix (str ''package:'' @ r) = r"
  "\<not> prefix (str ''package:'') t \<Longrightarrow> stripPackagePrefix t = t"
  by (simp_all add: stripPackagePrefix_def startsWith_prefix slice_def package_prefix_facts)

lemma stripPackagePrefix_split:
  "(\<not> prefix (str ''package:'') t \<and> stripPackagePrefix t = t) \<or>
   t = str ''package:'' @ stripPackagePrefix t"
proof (cases "prefix (str ''package:'') t")
  case True
  then obtain r where "t = str ''package:'' @ r" by (auto simp: prefix_def)
  then show ?thesis by (simp add: stripPackagePrefix_cases)
next
  case False
  then show ?thesis by (simp add: stripPackagePrefix_cases)
qed

lemma length_stripPackagePrefix: "length (stripPackagePrefix t) \<le> length t"
  by (simp add: stripPackagePrefix_def slice_def)

lemma parsePackageList_element:
  assumes "e \<in> set (parsePackageList input)"
  shows "e \<noteq> [] \<and> \<not> isWhiteSpace (last e) \<and> LF \<notin> set e \<and>
         ((\<not> isWhiteSpace (hd e) \<and> \<not> prefix (str ''package:'') e) \<or>
          (\<exists>l\<in>set (splitLines input). trim l = str ''package:'' @ e))"
proof -
  from assms obtain l where l: "l \<in> set (splitLines input)"
    and e: "e = stripPackagePrefix (trim l)" and ne: "e \<noteq> []"
    unfolding parsePackageList_lines by auto
  from e ne have t: "trim l \<noteq> []" by auto
  have hd: "\<not> isWhiteSpace (hd (trim l))" and last: "\<not> isWhiteSpace (last (trim l))"
    using t by (rule trim_hd, rule trim_last)
  from l have "LF \<notin> set l" by (rule splitLines_no_LF)
  with set_trim[of l] have lf: "LF \<notin> set (trim l)" by blast
  from stripPackagePrefix_split[of "trim l"] show ?thesis
  proof
    assume "\<not> prefix (str ''package:'') (trim l) \<and> stripPackagePrefix (trim l) = trim l"
    with e ne hd last lf show ?thesis by simp
  next
    assume p: "trim l = str ''package:'' @ stripPackagePrefix (trim l)"
    then have p': "trim l = str ''package:'' @ e" by (simp add: e)
    with ne last have "\<not> isWhiteSpace (last e)" by simp
    moreover from p' lf have "LF \<notin> set e" by auto
    ultimately show ?thesis using ne l p' by blast
  qed
qed

text \<open>
  C3, as the program has it. The output is, in the order of the input lines, each line
  trimmed and with one leading \<open>package:\<close> removed, the lines that become empty left
  out. Every element is non-empty, has no line feed and no trailing whitespace. An
  element has no leading whitespace and no leading \<open>package:\<close> unless it is what
  followed the \<open>package:\<close> of its line, which is neither trimmed nor stripped again.
\<close>

theorem normaliser_output_shape:
  "parsePackageList input =
     map (\<lambda>l. stripPackagePrefix (trim l))
       (filter (\<lambda>l. stripPackagePrefix (trim l) \<noteq> []) (splitLines input))
   \<and> (\<forall>r. stripPackagePrefix (str ''package:'' @ r) = r)
   \<and> (\<forall>t. \<not> prefix (str ''package:'') t \<longrightarrow> stripPackagePrefix t = t)
   \<and> (\<forall>e \<in> set (parsePackageList input).
        e \<noteq> [] \<and> \<not> isWhiteSpace (last e) \<and> LF \<notin> set e \<and>
        ((\<not> isWhiteSpace (hd e) \<and> \<not> prefix (str ''package:'') e) \<or>
         (\<exists>l\<in>set (splitLines input). trim l = str ''package:'' @ e)))"
  using parsePackageList_lines[of input] stripPackagePrefix_cases parsePackageList_element[of _ input]
  by blast

text \<open>On the example input.\<close>

theorem normaliser_output_shape_witness:
  "parsePackageList exampleInput = exampleInstalled
   \<and> \<not> prefix (str ''package:'') (str ''com.android.egg'')
   \<and> stripPackagePrefix (str ''com.android.egg'') = str ''com.android.egg''
   \<and> stripPackagePrefix (str ''package:'' @ str ''com.android.egg'') = str ''com.android.egg''
   \<and> str ''com.android.chrome'' \<in> set (parsePackageList exampleInput)
   \<and> str ''com.android.chrome'' \<noteq> []
   \<and> \<not> isWhiteSpace (last (str ''com.android.chrome''))
   \<and> LF \<notin> set (str ''com.android.chrome'')
   \<and> \<not> isWhiteSpace (hd (str ''com.android.chrome''))"
proof -
  note T = normaliser_output_shape[of exampleInput]
  have np: "\<not> prefix (str ''package:'') (str ''com.android.egg'')"
    by code_simp
  from T have "\<forall>t. \<not> prefix (str ''package:'') t \<longrightarrow> stripPackagePrefix t = t" by blast
  with np have s1: "stripPackagePrefix (str ''com.android.egg'') = str ''com.android.egg''"
    by blast
  from T have s2: "stripPackagePrefix (str ''package:'' @ str ''com.android.egg'') =
      str ''com.android.egg''"
    by blast
  have mem: "str ''com.android.chrome'' \<in> set (parsePackageList exampleInput)"
    unfolding example_parse by (simp add: exampleInstalled_def)
  from T have "\<forall>e \<in> set (parsePackageList exampleInput).
        e \<noteq> [] \<and> \<not> isWhiteSpace (last e) \<and> LF \<notin> set e" by blast
  with mem have e: "str ''com.android.chrome'' \<noteq> []
      \<and> \<not> isWhiteSpace (last (str ''com.android.chrome''))
      \<and> LF \<notin> set (str ''com.android.chrome'')"
    by blast
  have h: "\<not> isWhiteSpace (hd (str ''com.android.chrome''))"
    by (simp add: str_def isWhiteSpace_def)
  from example_parse np s1 s2 mem e h show ?thesis by blast
qed

text \<open>
  C3, as stated, fails: of \<open>package:package:a\<close> the element \<open>package:a\<close> remains,
  which begins with \<open>package:\<close>, and of \<open>package: a\<close> the element \<open> a\<close> remains,
  which begins with a space.
\<close>

theorem parsePackageList_prefix_counterexample:
  "parsePackageList (str ''package:package:a'') = [str ''package:a'']
   \<and> prefix (str ''package:'') (str ''package:a'')
   \<and> parsePackageList (str ''package: a'') = [str '' a'']
   \<and> isWhiteSpace (hd (str '' a''))"
  by code_simp

lemma map_filter_id:
  assumes "map f (filter P xs) = xs"
  shows "\<forall>x\<in>set xs. P x \<and> f x = x"
proof -
  from assms have "length (filter P xs) = length xs" by (metis length_map)
  then have all: "\<forall>x\<in>set xs. P x"
    by (metis length_filter_less less_irrefl)
  then have "filter P xs = xs" by (simp add: filter_id_conv)
  with assms have "map f xs = xs" by simp
  then have "\<forall>x\<in>set xs. f x = x" by (simp add: map_idI map_eq_conv[of f xs id, simplified])
  with all show ?thesis by blast
qed

lemma parsePackageList_Nil: "parsePackageList [] = []"
  by (simp add: parsePackageList_def truthy_def)

lemma parse_join:
  assumes "out = parsePackageList input" "out \<noteq> []"
  shows "parsePackageList (joinLines out) =
     map (\<lambda>l. stripPackagePrefix (trim l)) (filter (\<lambda>l. stripPackagePrefix (trim l) \<noteq> []) out)"
proof -
  have "\<forall>l\<in>set out. LF \<notin> set l"
    using parsePackageList_element[of _ input] assms(1) by blast
  with assms(2) have "splitLines (joinLines out) = out" by (rule splitLines_joinLines)
  then show ?thesis by (simp add: parsePackageList_lines)
qed

text \<open>
  C6, as the program has it. Normalising the normaliser's output joined by line feeds
  gives that output again exactly when no element of the output begins with whitespace
  or with \<open>package:\<close>.
\<close>

theorem normaliser_idempotent_iff:
  "parsePackageList (joinLines (parsePackageList input)) = parsePackageList input \<longleftrightarrow>
     (\<forall>e\<in>set (parsePackageList input).
        \<not> isWhiteSpace (hd e) \<and> \<not> prefix (str ''package:'') e)"
proof (cases "parsePackageList input = []")
  case True
  then show ?thesis by (simp add: parsePackageList_Nil)
next
  case False
  let ?out = "parsePackageList input"
  let ?clean = "\<lambda>l. stripPackagePrefix (trim l)"
  have pj: "parsePackageList (joinLines ?out) = map ?clean (filter (\<lambda>l. ?clean l \<noteq> []) ?out)"
    using False by (intro parse_join) simp_all
  show ?thesis
  proof
    assume "parsePackageList (joinLines ?out) = ?out"
    then have fx: "\<forall>e\<in>set ?out. ?clean e \<noteq> [] \<and> ?clean e = e"
      unfolding pj by (rule map_filter_id)
    show "\<forall>e\<in>set ?out. \<not> isWhiteSpace (hd e) \<and> \<not> prefix (str ''package:'') e"
    proof
      fix e assume e: "e \<in> set ?out"
      with fx have c: "?clean e = e" and ne: "e \<noteq> []" by auto
      from e have last: "\<not> isWhiteSpace (last e)"
        using parsePackageList_element by blast
      have hd: "\<not> isWhiteSpace (hd e)"
      proof
        assume "isWhiteSpace (hd e)"
        with ne have "length (trim e) < length e" by (rule length_trim_less)
        with length_stripPackagePrefix[of "trim e"] c show False by simp
      qed
      with ne last have "trim e = e" by (intro trim_id)
      with c have s: "stripPackagePrefix e = e" by simp
      have "\<not> prefix (str ''package:'') e"
      proof
        assume "prefix (str ''package:'') e"
        then obtain r where r: "e = str ''package:'' @ r" by (auto simp: prefix_def)
        with s have "str ''package:'' @ r = r" by (simp add: stripPackagePrefix_cases)
        then have "length (str ''package:'' @ r) = length r" by simp
        then show False by (simp add: package_prefix_facts)
      qed
      with hd show "\<not> isWhiteSpace (hd e) \<and> \<not> prefix (str ''package:'') e" ..
    qed
  next
    assume clean: "\<forall>e\<in>set ?out. \<not> isWhiteSpace (hd e) \<and> \<not> prefix (str ''package:'') e"
    have "?clean e = e \<and> e \<noteq> []" if e: "e \<in> set ?out" for e
    proof -
      from e have ne: "e \<noteq> []" and last: "\<not> isWhiteSpace (last e)"
        using parsePackageList_element by blast+
      from e clean have "\<not> isWhiteSpace (hd e)" "\<not> prefix (str ''package:'') e" by auto
      with ne last show ?thesis by (simp add: trim_id stripPackagePrefix_cases)
    qed
    then have "filter (\<lambda>l. ?clean l \<noteq> []) ?out = ?out" "map ?clean ?out = ?out"
      by (simp_all add: filter_id_conv map_idI)
    then show "parsePackageList (joinLines ?out) = ?out" by (simp add: pj)
  qed
qed

text \<open>On the example input, whose identifiers are clean.\<close>

theorem normaliser_idempotent_iff_witness:
  "list_all (\<lambda>e. \<not> isWhiteSpace (hd e) \<and> \<not> prefix (str ''package:'') e)
     (parsePackageList exampleInput)
   \<and> parsePackageList (joinLines (parsePackageList exampleInput)) =
       parsePackageList exampleInput"
proof -
  have h: "list_all (\<lambda>e. \<not> isWhiteSpace (hd e) \<and> \<not> prefix (str ''package:'') e)
     (parsePackageList exampleInput)"
    unfolding example_parse by code_simp
  then have "\<forall>e\<in>set (parsePackageList exampleInput).
        \<not> isWhiteSpace (hd e) \<and> \<not> prefix (str ''package:'') e"
    by (simp add: list_all_iff)
  with normaliser_idempotent_iff[of exampleInput]
  have "parsePackageList (joinLines (parsePackageList exampleInput)) =
       parsePackageList exampleInput"
    by (rule iffD2)
  with h show ?thesis ..
qed

text \<open>
  C6, as stated for every input, fails: from \<open>package:package:a\<close> the first pass
  keeps \<open>package:a\<close> and the second pass turns it into \<open>a\<close>.
\<close>

theorem normaliser_idempotent_counterexample:
  "parsePackageList (joinLines (parsePackageList (str ''package:package:a''))) \<noteq>
     parsePackageList (str ''package:package:a'')"
  by code_simp


section \<open>Detection run\<close>

lemma trim_Nil_iff: "trim s = [] \<longleftrightarrow> (\<forall>c\<in>set s. isWhiteSpace c)"
proof
  assume "trim s = []"
  then have all: "\<forall>c\<in>set (dropWhile isWhiteSpace s). isWhiteSpace c"
    by (simp add: trim_def trimEnd_def trimStart_def dropWhile_Nil_iff)
  have "dropWhile isWhiteSpace s = []"
  proof (rule ccontr)
    assume ne: "dropWhile isWhiteSpace s \<noteq> []"
    then have "\<not> isWhiteSpace (hd (dropWhile isWhiteSpace s))" by (rule hd_dropWhile)
    moreover from ne have "hd (dropWhile isWhiteSpace s) \<in> set (dropWhile isWhiteSpace s)"
      by simp
    ultimately show False using all by blast
  qed
  then show "\<forall>c\<in>set s. isWhiteSpace c" by (simp add: dropWhile_Nil_iff)
next
  assume "\<forall>c\<in>set s. isWhiteSpace c"
  then have d: "dropWhile isWhiteSpace s = []" by (simp add: dropWhile_Nil_iff)
  show "trim s = []" unfolding trim_def trimEnd_def trimStart_def d by simp
qed

text \<open>
  C9. When the raw input is empty or consists of whitespace only, the error
  \<open>Please paste your package list\<close> is set; when it is not blank but the normaliser
  yields no identifier, the error \<open>No valid packages found in the input\<close> is set. In
  both cases the collection is unchanged and the resulting state does not depend on the
  classifier, which is not called. In every run either an error is set and the
  collection is unchanged, or no error is set and the collection is the classifier's
  complete result.
\<close>

theorem detection_run_errors:
  "((\<forall>c\<in>set (packageInput st). isWhiteSpace c) \<longrightarrow>
      error (handleDetectBloatware detect st) = Some (str ''Please paste your package list'')
      \<and> detectedPackages (handleDetectBloatware detect st) = detectedPackages st
      \<and> (\<forall>detect'. handleDetectBloatware detect' st = handleDetectBloatware detect st))
   \<and> (\<not> (\<forall>c\<in>set (packageInput st). isWhiteSpace c) \<and> parsePackageList (packageInput st) = [] \<longrightarrow>
      error (handleDetectBloatware detect st) = Some (str ''No valid packages found in the input'')
      \<and> detectedPackages (handleDetectBloatware detect st) = detectedPackages st
      \<and> (\<forall>detect'. handleDetectBloatware detect' st = handleDetectBloatware detect st))
   \<and> ((error (handleDetectBloatware detect st) \<noteq> None
        \<and> detectedPackages (handleDetectBloatware detect st) = detectedPackages st)
      \<or> (error (handleDetectBloatware detect st) = None
        \<and> detect (parsePackageList (packageInput st)) =
            Inr (detectedPackages (handleDetectBloatware detect st))))"
  by (simp add: handleDetectBloatware_def Let_def truthy_def trim_Nil_iff split: sum.splits)


text \<open>A blank input and an input holding only the prefix, pasted over the example collection.\<close>

theorem detection_run_errors_witness:
  "list_all isWhiteSpace (str '' \<newline> '')
   \<and> error (runDetection toLowerCaseASCII exampleMetadata exampleData
              (exampleState (str '' \<newline> ''))) = Some (str ''Please paste your package list'')
   \<and> detectedPackages (runDetection toLowerCaseASCII exampleMetadata exampleData
              (exampleState (str '' \<newline> ''))) = exampleDetected
   \<and> \<not> list_all isWhiteSpace (str ''package:'')
   \<and> parsePackageList (str ''package:'') = []
   \<and> error (runDetection toLowerCaseASCII exampleMetadata exampleData
              (exampleState (str ''package:''))) =
       Some (str ''No valid packages found in the input'')
   \<and> detectedPackages (runDetection toLowerCaseASCII exampleMetadata exampleData
              (exampleState (str ''package:''))) = exampleDetected"
proof -
  let ?d = "\<lambda>installedPackages.
      Inr (detectBloatware toLowerCaseASCII exampleMetadata installedPackages exampleData)
        :: js_string + DetectedPackage list"
  note T1 = detection_run_errors[of "exampleState (str '' \<newline> '')" ?d]
  note T2 = detection_run_errors[of "exampleState (str ''package:'')" ?d]
  have b: "list_all isWhiteSpace (str '' \<newline> '')" by code_simp
  then have b': "\<forall>c\<in>set (packageInput (exampleState (str '' \<newline> ''))). isWhiteSpace c"
    by (simp add: list_all_iff exampleState_def)
  have n: "\<not> list_all isWhiteSpace (str ''package:'')" by code_simp
  then have n': "\<not> (\<forall>c\<in>set (packageInput (exampleState (str ''package:''))). isWhiteSpace c)"
    by (simp add: list_all_iff exampleState_def)
  have e: "parsePackageList (str ''package:'') = []" by code_simp
  then have e': "parsePackageList (packageInput (exampleState (str ''package:''))) = []"
    by (simp add: exampleState_def)
  have d: "detectedPackages (exampleState s) = exampleDetected" for s
    by (simp add: exampleState_def)
  from T1 b' have r1: "error (handleDetectBloatware ?d (exampleState (str '' \<newline> ''))) =
        Some (str ''Please paste your package list'')
      \<and> detectedPackages (handleDetectBloatware ?d (exampleState (str '' \<newline> ''))) =
        detectedPackages (exampleState (str '' \<newline> ''))"
    by blast
  from T2 n' e' have r2: "error (handleDetectBloatware ?d (exampleState (str ''package:''))) =
        Some (str ''No valid packages found in the input'')
      \<and> detectedPackages (handleDetectBloatware ?d (exampleState (str ''package:''))) =
        detectedPackages (exampleState (str ''package:''))"
    by blast
  from b n e r1 r2 show ?thesis unfolding runDetection_def d by blast
qed

section \<open>Grouping for display\<close>

lemma groupsPush_map_of:
  "map_of (groupsPush l p g) =
     (map_of g)(l \<mapsto> (case map_of g l of None \<Rightarrow> [] | Some v \<Rightarrow> v) @ [p])"
proof (induction g)
  case Nil
  then show ?case by simp
next
  case (Cons kv g)
  obtain k v where kv: "kv = (k, v)" by (cases kv)
  show ?case
  proof (cases "k = l")
    case True
    then show ?thesis by (simp add: kv fun_eq_iff)
  next
    case False
    then show ?thesis by (auto simp: kv Cons.IH fun_eq_iff)
  qed
qed

lemma groupsPush_keys:
  "map fst (groupsPush l p g) = (if l \<in> fst ` set g then map fst g else map fst g @ [l])"
  by (induction g) (auto split: if_splits)

lemma foldl_groupsPush_map_of:
  "map_of (foldl (\<lambda>g p. groupsPush (L p) p g) g xs) k =
     (if map_of g k = None \<and> filter (\<lambda>p. L p = k) xs = [] then None
      else Some ((case map_of g k of None \<Rightarrow> [] | Some v \<Rightarrow> v) @ filter (\<lambda>p. L p = k) xs))"
proof (induction xs arbitrary: g)
  case Nil
  then show ?case by (cases "map_of g k") simp_all
next
  case (Cons x xs)
  show ?case
    by (simp add: Cons.IH groupsPush_map_of split: option.splits)
qed

lemma catPkgs_eq:
  "(case map_of (groupByCategory pkgs) cat of None \<Rightarrow> [] | Some l \<Rightarrow> l) =
     filter (\<lambda>p. categoryLabel (category p) = cat) (sortedByPriority pkgs)"
  by (simp add: groupByCategory_def foldl_groupsPush_map_of)

lemma set_sortedByPriority: "set (sortedByPriority pkgs) = set pkgs"
  by (simp add: sortedByPriority_def)

subsection \<open>A stable sort by key puts the blocks of equal key in key order\<close>

lemma mset_filter_disjoint:
  "(\<And>x. x \<in> set xs \<Longrightarrow> \<not> (P x \<and> Q x)) \<Longrightarrow>
     mset (filter P xs) + mset (filter Q xs) = mset (filter (\<lambda>x. P x \<or> Q x) xs)"
  by (induction xs) auto

lemma mset_key_blocks:
  "distinct ks \<Longrightarrow>
     mset (concat (map (\<lambda>k. filter (\<lambda>x. f x = k) xs) ks)) = mset (filter (\<lambda>x. f x \<in> set ks) xs)"
proof (induction ks)
  case Nil
  then show ?case by simp
next
  case (Cons k ks)
  then have "mset (concat (map (\<lambda>k. filter (\<lambda>x. f x = k) xs) (k # ks))) =
      mset (filter (\<lambda>x. f x = k) xs) + mset (filter (\<lambda>x. f x \<in> set ks) xs)"
    by simp
  also have "\<dots> = mset (filter (\<lambda>x. f x = k \<or> f x \<in> set ks) xs)"
    using Cons.prems by (intro mset_filter_disjoint) auto
  finally show ?case by (simp add: disj_commute eq_commute[of k] cong: conj_cong)
qed

lemma set_key_blocks:
  "y \<in> set (concat (map (\<lambda>k. filter (\<lambda>x. f x = k) xs) ks)) \<Longrightarrow> f y \<in> set ks \<and> y \<in> set xs"
  by auto

lemma sorted_key_blocks:
  fixes f :: "'a \<Rightarrow> nat"
  shows "sorted ks \<Longrightarrow> sorted (map f (concat (map (\<lambda>k. filter (\<lambda>x. f x = k) xs) ks)))"
proof (induction ks)
  case Nil
  then show ?case by simp
next
  case (Cons k ks)
  have blk: "sorted (map f (filter (\<lambda>x. f x = k) xs))"
    by (induction xs) auto
  from Cons show ?case
    by (auto simp: sorted_append blk)
qed

lemma filter_key_blocks_absent:
  "j \<notin> set ks \<Longrightarrow> filter (\<lambda>x. j = f x) (concat (map (\<lambda>k. filter (\<lambda>x. f x = k) xs) ks)) = []"
  by (induction ks) (auto simp: filter_empty_conv)

lemma filter_key_blocks:
  "distinct ks \<Longrightarrow> j \<in> set ks \<Longrightarrow>
     filter (\<lambda>x. j = f x) (concat (map (\<lambda>k. filter (\<lambda>x. f x = k) xs) ks)) =
     filter (\<lambda>x. j = f x) xs"
proof (induction ks)
  case Nil
  then show ?case by simp
next
  case (Cons k ks)
  show ?case
  proof (cases "j = k")
    case True
    with Cons.prems have "j \<notin> set ks" by simp
    then have "filter (\<lambda>x. j = f x) (concat (map (\<lambda>k. filter (\<lambda>x. f x = k) xs) ks)) = []"
      by (rule filter_key_blocks_absent)
    moreover have "filter (\<lambda>x. j = f x) (filter (\<lambda>x. f x = k) xs) = filter (\<lambda>x. j = f x) xs"
      unfolding True filter_filter by (rule filter_cong) auto
    ultimately show ?thesis by simp
  next
    case False
    then have "filter (\<lambda>x. j = f x) (filter (\<lambda>x. f x = k) xs) = []"
      by (auto simp: filter_empty_conv)
    with Cons False show ?thesis by simp
  qed
qed

lemma sort_key_blocks:
  fixes f :: "'a \<Rightarrow> nat"
  assumes "sorted ks" "distinct ks" "\<forall>x\<in>set xs. f x \<in> set ks"
  shows "sort_key f xs = concat (map (\<lambda>k. filter (\<lambda>x. f x = k) xs) ks)"
proof (rule properties_for_sort_key)
  from assms(3) have "filter (\<lambda>x. f x \<in> set ks) xs = xs" by (simp add: filter_id_conv)
  with mset_key_blocks[OF assms(2), of f xs]
  show "mset (concat (map (\<lambda>k. filter (\<lambda>x. f x = k) xs) ks)) = mset xs" by simp
next
  fix y assume "y \<in> set (concat (map (\<lambda>k. filter (\<lambda>x. f x = k) xs) ks))"
  then have "f y \<in> set ks" using set_key_blocks by fast
  then show "filter (\<lambda>x. f y = f x) (concat (map (\<lambda>k. filter (\<lambda>x. f x = k) xs) ks)) =
      filter (\<lambda>x. f y = f x) xs"
    by (rule filter_key_blocks[OF assms(2)])
next
  show "sorted (map f (concat (map (\<lambda>k. filter (\<lambda>x. f x = k) xs) ks)))"
    by (rule sorted_key_blocks[OF assms(1)])
qed

subsection \<open>Priorities and labels of the five categories\<close>

lemma distinct_fixedCategories: "distinct fixedCategories"
  by (simp add: fixedCategories_def str_def)

lemma categoryPriority_fixed:
  "map categoryPriority fixedCategories = [0, 1, 2, 3, 4]"
  by (simp add: fixedCategories_def categoryPriority_def categoryOrderMap_def str_def)

lemma categoryPriority_other:
  "c \<notin> set fixedCategories \<Longrightarrow> categoryPriority c = 999"
  by (simp add: fixedCategories_def categoryPriority_def categoryOrderMap_def
      DEFAULT_CATEGORY_PRIORITY_def)

lemma categoryLabel_fixed:
  "map categoryLabel fixedCategories =
     [str ''Brand-Specific Bloatware'', str ''Chipset-Specific Bloatware'',
      str ''Generic Bloatware'', str ''Suspicious Packages'', str ''Other Installed Apps'']"
  by (simp add: fixedCategories_def categoryLabel_def categoryLabels_def orElse_def truthy_def
      str_def)

lemma distinct_labels: "distinct (map categoryLabel fixedCategories)"
  unfolding categoryLabel_fixed by (simp add: str_def)

lemma categoryPriority_range: "categoryPriority c \<in> set [0, 1, 2, 3, 4, 999]"
proof (cases "c \<in> set fixedCategories")
  case True
  then have "categoryPriority c \<in> set (map categoryPriority fixedCategories)" by simp
  then show ?thesis unfolding categoryPriority_fixed by auto
next
  case False
  then show ?thesis by (simp add: categoryPriority_other)
qed

lemma categoryPriority_iff:
  "categoryPriority c = 0 \<longleftrightarrow> c = fixedCategories ! 0"
  "categoryPriority c = Suc 0 \<longleftrightarrow> c = fixedCategories ! Suc 0"
  "categoryPriority c = 2 \<longleftrightarrow> c = fixedCategories ! 2"
  "categoryPriority c = 3 \<longleftrightarrow> c = fixedCategories ! 3"
  "categoryPriority c = 4 \<longleftrightarrow> c = fixedCategories ! 4"
  "categoryPriority c = 999 \<longleftrightarrow> c \<notin> set fixedCategories"
proof -
  have len: "length fixedCategories = 5" by (simp add: fixedCategories_def)
  have nth: "categoryPriority (fixedCategories ! i) = i" if "i < 5" for i
    using that nth_map[of i fixedCategories categoryPriority] len
    unfolding categoryPriority_fixed
    by (auto simp: less_Suc_eq numeral_eq_Suc)
  have inj: "c = fixedCategories ! i" if "categoryPriority c = i" "i < 5" for i
  proof -
    have "c \<in> set fixedCategories"
      using that categoryPriority_other[of c] by auto
    then obtain j where j: "j < 5" "c = fixedCategories ! j"
      unfolding in_set_conv_nth len by auto
    with nth[of j] that show ?thesis by simp
  qed
  show "categoryPriority c = 0 \<longleftrightarrow> c = fixedCategories ! 0" using nth[of 0] inj[of 0] by auto
  show "categoryPriority c = Suc 0 \<longleftrightarrow> c = fixedCategories ! Suc 0"
    using nth[of 1] inj[of 1] by auto
  show "categoryPriority c = 2 \<longleftrightarrow> c = fixedCategories ! 2" using nth[of 2] inj[of 2] by auto
  show "categoryPriority c = 3 \<longleftrightarrow> c = fixedCategories ! 3" using nth[of 3] inj[of 3] by auto
  show "categoryPriority c = 4 \<longleftrightarrow> c = fixedCategories ! 4" using nth[of 4] inj[of 4] by auto
  show "categoryPriority c = 999 \<longleftrightarrow> c \<notin> set fixedCategories"
  proof
    assume "categoryPriority c = 999"
    show "c \<notin> set fixedCategories"
    proof
      assume "c \<in> set fixedCategories"
      then have "categoryPriority c \<in> set (map categoryPriority fixedCategories)" by simp
      with \<open>categoryPriority c = 999\<close> show False unfolding categoryPriority_fixed by simp
    qed
  qed (rule categoryPriority_other)
qed

lemma sortedByPriority_blocks:
  "sortedByPriority pkgs =
     concat (map (\<lambda>c. filter (\<lambda>p. category p = c) pkgs) fixedCategories)
     @ filter (\<lambda>p. category p \<notin> set fixedCategories) pkgs"
proof -
  have "sortedByPriority pkgs =
      concat (map (\<lambda>k. filter (\<lambda>p. categoryPriority (category p) = k) pkgs) [0, 1, 2, 3, 4, 999])"
    unfolding sortedByPriority_def
  proof (rule sort_key_blocks)
    show "sorted [0, 1, 2, 3, 4, 999::nat]" by simp
    show "distinct [0, 1, 2, 3, 4, 999::nat]" by simp
    show "\<forall>p\<in>set pkgs. categoryPriority (category p) \<in> set [0, 1, 2, 3, 4, 999]"
      using categoryPriority_range by blast
  qed
  also have "\<dots> = concat (map (\<lambda>c. filter (\<lambda>p. category p = c) pkgs)
      [fixedCategories ! 0, fixedCategories ! 1, fixedCategories ! 2, fixedCategories ! 3,
       fixedCategories ! 4]) @ filter (\<lambda>p. category p \<notin> set fixedCategories) pkgs"
    by (simp add: categoryPriority_iff)
  also have "[fixedCategories ! 0, fixedCategories ! 1, fixedCategories ! 2, fixedCategories ! 3,
       fixedCategories ! 4] = fixedCategories"
    by (simp add: fixedCategories_def)
  finally show ?thesis .
qed

subsection \<open>The groups\<close>

lemma groupsPush_new:
  "l \<notin> fst ` set g \<Longrightarrow> groupsPush l p g = g @ [(l, [p])]"
  by (induction g) auto

lemma groupsPush_last:
  "l \<notin> fst ` set g \<Longrightarrow> groupsPush l p (g @ [(l, v)]) = g @ [(l, v @ [p])]"
  by (induction g) auto

lemma foldl_groupsPush_last:
  "l \<notin> fst ` set g \<Longrightarrow> \<forall>p\<in>set b. L p = l \<Longrightarrow>
     foldl (\<lambda>g p. groupsPush (L p) p g) (g @ [(l, v)]) b = g @ [(l, v @ b)]"
  by (induction b arbitrary: v) (simp_all add: groupsPush_last)

lemma foldl_groupsPush_block:
  assumes "l \<notin> fst ` set g" "\<forall>p\<in>set b. L p = l"
  shows "foldl (\<lambda>g p. groupsPush (L p) p g) g b = (if b = [] then g else g @ [(l, b)])"
proof (cases b)
  case Nil
  then show ?thesis by simp
next
  case (Cons x b')
  with assms have "foldl (\<lambda>g p. groupsPush (L p) p g) g b =
      foldl (\<lambda>g p. groupsPush (L p) p g) (g @ [(l, [x])]) b'"
    by (simp add: groupsPush_new)
  also have "\<dots> = g @ [(l, [x] @ b')]"
    using assms Cons by (intro foldl_groupsPush_last) auto
  finally show ?thesis using Cons by simp
qed

lemma foldl_groupsPush_blocks:
  assumes "distinct (map Lab cs)" "Lab ` set cs \<inter> fst ` set g = {}"
  shows "foldl (\<lambda>g p. groupsPush (Lab (category p)) p g) g
           (concat (map (\<lambda>c. filter (\<lambda>p. category p = c) pkgs) cs)) =
         g @ map (\<lambda>c. (Lab c, filter (\<lambda>p. category p = c) pkgs))
               (filter (\<lambda>c. c \<in> category ` set pkgs) cs)"
  using assms
proof (induction cs arbitrary: g)
  case Nil
  then show ?case by simp
next
  case (Cons c cs)
  let ?b = "filter (\<lambda>p. category p = c) pkgs"
  let ?g = "if ?b = [] then g else g @ [(Lab c, ?b)]"
  have e: "?b = [] \<longleftrightarrow> c \<notin> category ` set pkgs"
    by (auto simp: filter_empty_conv)
  from Cons.prems have "Lab c \<notin> fst ` set g" by auto
  then have blk: "foldl (\<lambda>g p. groupsPush (Lab (category p)) p g) g ?b = ?g"
    by (intro foldl_groupsPush_block) auto
  from Cons.prems have "distinct (map Lab cs)" "Lab ` set cs \<inter> fst ` set ?g = {}"
    by auto
  from Cons.IH[OF this] blk e show ?case by simp
qed

lemma groupByCategory_fixed:
  assumes "\<forall>p\<in>set pkgs. category p \<in> set fixedCategories"
  shows "groupByCategory pkgs =
     map (\<lambda>c. (categoryLabel c, filter (\<lambda>p. category p = c) pkgs))
         (filter (\<lambda>c. c \<in> category ` set pkgs) fixedCategories)"
proof -
  from assms have "filter (\<lambda>p. category p \<notin> set fixedCategories) pkgs = []"
    by (simp add: filter_empty_conv)
  then have "sortedByPriority pkgs =
      concat (map (\<lambda>c. filter (\<lambda>p. category p = c) pkgs) fixedCategories)"
    by (simp add: sortedByPriority_blocks)
  then show ?thesis
    unfolding groupByCategory_def
    using foldl_groupsPush_blocks[of categoryLabel fixedCategories "[]" pkgs] distinct_labels
    by simp
qed

text \<open>
  C8. The sort puts first the entries of category \<open>brand\<close>, then \<open>chipset\<close>,
  \<open>generic\<close>, \<open>suspicious\<close>, \<open>system\<close>, and last the entries of any other category,
  each block in the input order of its entries. The five categories have the priorities
  0 to 4, every other category has 999. The five categories carry the five fixed
  labels, and for a collection whose categories are among the five the groups are, in
  that order, the non-empty ones among the five, each holding its entries in input order.
\<close>

theorem groups_in_priority_order:
  "sortedByPriority pkgs =
     concat (map (\<lambda>c. filter (\<lambda>p. category p = c) pkgs)
               [str ''brand'', str ''chipset'', str ''generic'', str ''suspicious'', str ''system''])
     @ filter (\<lambda>p. category p \<notin>
          set [str ''brand'', str ''chipset'', str ''generic'', str ''suspicious'', str ''system''])
         pkgs
   \<and> map categoryPriority
        [str ''brand'', str ''chipset'', str ''generic'', str ''suspicious'', str ''system''] =
      [0, 1, 2, 3, 4]
   \<and> (\<forall>c. c \<notin> set [str ''brand'', str ''chipset'', str ''generic'', str ''suspicious'',
                      str ''system''] \<longrightarrow> categoryPriority c = 999)
   \<and> map categoryLabel
        [str ''brand'', str ''chipset'', str ''generic'', str ''suspicious'', str ''system''] =
      [str ''Brand-Specific Bloatware'', str ''Chipset-Specific Bloatware'',
       str ''Generic Bloatware'', str ''Suspicious Packages'', str ''Other Installed Apps'']
   \<and> ((\<forall>p\<in>set pkgs. category p \<in>
          set [str ''brand'', str ''chipset'', str ''generic'', str ''suspicious'', str ''system''])
        \<longrightarrow> groupByCategory pkgs =
          map (\<lambda>c. (categoryLabel c, filter (\<lambda>p. category p = c) pkgs))
              (filter (\<lambda>c. c \<in> category ` set pkgs)
                 [str ''brand'', str ''chipset'', str ''generic'', str ''suspicious'',
                  str ''system'']))"
  using sortedByPriority_blocks[of pkgs] categoryLabel_fixed groupByCategory_fixed[of pkgs]
    categoryPriority_fixed categoryPriority_other
  unfolding fixedCategories_def by blast


text \<open>On the example collection, and on it with an entry of a category outside the five.\<close>

theorem groups_in_priority_order_witness:
  "list_all (\<lambda>p. category p \<in>
       set [str ''brand'', str ''chipset'', str ''generic'', str ''suspicious'', str ''system''])
     exampleDetected
   \<and> groupByCategory exampleDetected =
       [(str ''Brand-Specific Bloatware'', [exampleDetected ! 3]),
        (str ''Generic Bloatware'', [exampleDetected ! 0]),
        (str ''Suspicious Packages'', [exampleDetected ! 1]),
        (str ''Other Installed Apps'', [exampleDetected ! 2])]
   \<and> str ''other'' \<notin>
       set [str ''brand'', str ''chipset'', str ''generic'', str ''suspicious'', str ''system'']
   \<and> categoryPriority (str ''other'') = 999
   \<and> sortedByPriority ((exampleDetected ! 1)\<lparr>category := str ''other''\<rparr> # exampleDetected) =
       [exampleDetected ! 3, exampleDetected ! 0, exampleDetected ! 1, exampleDetected ! 2,
        (exampleDetected ! 1)\<lparr>category := str ''other''\<rparr>]"
proof -
  let ?five = "[str ''brand'', str ''chipset'', str ''generic'', str ''suspicious'', str ''system'']"
  note T = groups_in_priority_order[of exampleDetected]
  note T' = groups_in_priority_order[of
      "(exampleDetected ! 1)\<lparr>category := str ''other''\<rparr> # exampleDetected"]
  have h: "list_all (\<lambda>p. category p \<in> set ?five) exampleDetected"
    by (simp add: exampleDetected_def)
  then have h': "\<forall>p\<in>set exampleDetected. category p \<in> set ?five"
    by (simp only: list_all_iff)
  have ev: "map (\<lambda>c. (categoryLabel c, filter (\<lambda>p. category p = c) exampleDetected))
              (filter (\<lambda>c. c \<in> category ` set exampleDetected) ?five) =
       [(str ''Brand-Specific Bloatware'', [exampleDetected ! 3]),
        (str ''Generic Bloatware'', [exampleDetected ! 0]),
        (str ''Suspicious Packages'', [exampleDetected ! 1]),
        (str ''Other Installed Apps'', [exampleDetected ! 2])]"
    by (simp add: exampleDetected_def categoryLabel_def categoryLabels_def orElse_def truthy_def
        str_def)
  from T h' have "groupByCategory exampleDetected =
          map (\<lambda>c. (categoryLabel c, filter (\<lambda>p. category p = c) exampleDetected))
              (filter (\<lambda>c. c \<in> category ` set exampleDetected) ?five)"
    by blast
  then have g: "groupByCategory exampleDetected =
       [(str ''Brand-Specific Bloatware'', [exampleDetected ! 3]),
        (str ''Generic Bloatware'', [exampleDetected ! 0]),
        (str ''Suspicious Packages'', [exampleDetected ! 1]),
        (str ''Other Installed Apps'', [exampleDetected ! 2])]"
    using ev by (rule trans)
  have o: "str ''other'' \<notin> set ?five" by (simp add: str_def)
  from T have "\<forall>c. c \<notin> set ?five \<longrightarrow> categoryPriority c = 999" by blast
  with o have p: "categoryPriority (str ''other'') = 999" by blast
  have ev': "concat (map (\<lambda>c. filter (\<lambda>p. category p = c)
                 ((exampleDetected ! 1)\<lparr>category := str ''other''\<rparr> # exampleDetected)) ?five)
     @ filter (\<lambda>p. category p \<notin> set ?five)
         ((exampleDetected ! 1)\<lparr>category := str ''other''\<rparr> # exampleDetected) =
       [exampleDetected ! 3, exampleDetected ! 0, exampleDetected ! 1, exampleDetected ! 2,
        (exampleDetected ! 1)\<lparr>category := str ''other''\<rparr>]"
    by (simp add: exampleDetected_def str_def)
  have s: "sortedByPriority ((exampleDetected ! 1)\<lparr>category := str ''other''\<rparr> # exampleDetected) =
       [exampleDetected ! 3, exampleDetected ! 0, exampleDetected ! 1, exampleDetected ! 2,
        (exampleDetected ! 1)\<lparr>category := str ''other''\<rparr>]"
    using T'[THEN conjunct1] ev' by (rule trans)
  from h g o p s show ?thesis by blast
qed

section \<open>Selection toggles\<close>

lemma handleToggleAll_eq:
  "handleToggleAll pkgs cat sel =
     (if \<forall>p\<in>set pkgs. categoryLabel (category p) = cat \<longrightarrow> selected p = sel then None
      else Some (map (\<lambda>p. if packageName p \<in>
                              packageName ` {q \<in> set pkgs. categoryLabel (category q) = cat}
                            \<and> selected p \<noteq> sel
                          then p\<lparr>selected := sel\<rparr> else p) pkgs))"
proof -
  let ?c = "filter (\<lambda>p. categoryLabel (category p) = cat) (sortedByPriority pkgs)"
  have s: "set ?c = {q \<in> set pkgs. categoryLabel (category q) = cat}"
    by (auto simp: set_sortedByPriority)
  have e: "?c = [] \<Longrightarrow> (\<forall>p\<in>set pkgs. categoryLabel (category p) = cat \<longrightarrow> selected p = sel)"
    using s by (metis (mono_tags, lifting) empty_iff list.set(1) mem_Collect_eq)
  have n: "list_ex (\<lambda>p. selected p \<noteq> sel) ?c \<longleftrightarrow>
      \<not> (\<forall>p\<in>set pkgs. categoryLabel (category p) = cat \<longrightarrow> selected p = sel)"
    unfolding list_ex_iff s by auto
  show ?thesis
    unfolding handleToggleAll_def catPkgs_eq Let_def n
    using e s by (auto simp del: set_filter)
qed

text \<open>
  C7. Toggling a category to a target value and toggling one package each give a
  collection of the same length in which every entry differs from the old one at most
  in \<open>selected\<close>, and entries whose identifier is not targeted are unchanged. After a
  category toggle every entry of the category has the target value; when identifiers
  are unique the result is the collection with exactly the entries of the category set
  to the target; when every entry of the category already has the target value the
  handler does not call \<open>onPackagesChange\<close> and the collection stays as it is. The
  handler for one package takes no target value: it inverts \<open>selected\<close> of the named
  package.
\<close>

theorem toggle_frame:
  "length (afterChange pkgs (handleToggleAll pkgs cat sel)) = length pkgs
   \<and> (\<forall>i < length pkgs.
        afterChange pkgs (handleToggleAll pkgs cat sel) ! i =
          (pkgs ! i)\<lparr>selected := selected (afterChange pkgs (handleToggleAll pkgs cat sel) ! i)\<rparr>
        \<and> (packageName (pkgs ! i) \<notin>
              packageName ` {q \<in> set pkgs. categoryLabel (category q) = cat} \<longrightarrow>
            afterChange pkgs (handleToggleAll pkgs cat sel) ! i = pkgs ! i)
        \<and> (categoryLabel (category (pkgs ! i)) = cat \<longrightarrow>
            selected (afterChange pkgs (handleToggleAll pkgs cat sel) ! i) = sel))
   \<and> (distinct (map packageName pkgs) \<longrightarrow>
        afterChange pkgs (handleToggleAll pkgs cat sel) =
          map (\<lambda>p. if categoryLabel (category p) = cat then p\<lparr>selected := sel\<rparr> else p) pkgs)
   \<and> ((\<forall>p\<in>set pkgs. categoryLabel (category p) = cat \<longrightarrow> selected p = sel) \<longrightarrow>
        handleToggleAll pkgs cat sel = None
        \<and> afterChange pkgs (handleToggleAll pkgs cat sel) = pkgs)
   \<and> length (afterChange pkgs (handleTogglePackage pkgs name)) = length pkgs
   \<and> (\<forall>i < length pkgs.
        afterChange pkgs (handleTogglePackage pkgs name) ! i =
          (pkgs ! i)\<lparr>selected := selected (afterChange pkgs (handleTogglePackage pkgs name) ! i)\<rparr>
        \<and> (packageName (pkgs ! i) \<noteq> name \<longrightarrow>
            afterChange pkgs (handleTogglePackage pkgs name) ! i = pkgs ! i)
        \<and> (packageName (pkgs ! i) = name \<longrightarrow>
            selected (afterChange pkgs (handleTogglePackage pkgs name) ! i) = (\<not> selected (pkgs ! i))))"
proof -
  let ?T = "{q \<in> set pkgs. categoryLabel (category q) = cat}"
  let ?r = "afterChange pkgs (handleToggleAll pkgs cat sel)"
  let ?f = "\<lambda>p. if packageName p \<in> packageName ` ?T \<and> selected p \<noteq> sel
                 then p\<lparr>selected := sel\<rparr> else p"
  let ?g = "\<lambda>p. if categoryLabel (category p) = cat then p\<lparr>selected := sel\<rparr> else p"
  let ?all = "\<forall>p\<in>set pkgs. categoryLabel (category p) = cat \<longrightarrow> selected p = sel"
  have noop: "handleToggleAll pkgs cat sel = None \<and> ?r = pkgs" if ?all
    using that by (simp add: handleToggleAll_eq afterChange_def)
  have rn: "?r = pkgs" if ?all
    using noop[OF that] by (simp add: afterChange_def)
  have upd: "?r = map ?f pkgs" if "\<not> ?all"
    unfolding handleToggleAll_eq afterChange_def using that
    by (simp only: if_False option.case)
  have len: "length ?r = length pkgs"
    by (cases ?all) (simp_all add: rn upd)
  have pt: "?r ! i = (pkgs ! i)\<lparr>selected := selected (?r ! i)\<rparr>
        \<and> (packageName (pkgs ! i) \<notin> packageName ` ?T \<longrightarrow> ?r ! i = pkgs ! i)
        \<and> (categoryLabel (category (pkgs ! i)) = cat \<longrightarrow> selected (?r ! i) = sel)"
    if i: "i < length pkgs" for i
  proof (cases ?all)
    case True
    from i have "pkgs ! i \<in> set pkgs" by simp
    with True show ?thesis by (simp add: rn)
  next
    case False
    from i have m: "pkgs ! i \<in> set pkgs" by simp
    have "categoryLabel (category (pkgs ! i)) = cat \<Longrightarrow>
        packageName (pkgs ! i) \<in> packageName ` ?T"
      using m by blast
    then show ?thesis using i by (auto simp: upd[OF False])
  qed
  have fg: "?f p = ?g p" if d: "distinct (map packageName pkgs)" and p: "p \<in> set pkgs" for p
  proof (cases "categoryLabel (category p) = cat")
    case True
    with p have "packageName p \<in> packageName ` ?T" by blast
    with True show ?thesis by (cases "selected p = sel") simp_all
  next
    case False
    have "packageName p \<notin> packageName ` ?T"
    proof
      assume "packageName p \<in> packageName ` ?T"
      then obtain q where q: "q \<in> set pkgs" "categoryLabel (category q) = cat"
        "packageName q = packageName p" by auto
      from d have "inj_on packageName (set pkgs)" by (simp add: distinct_map)
      with q(1,3) p have "q = p" by (auto dest: inj_onD)
      with q(2) False show False by simp
    qed
    with False show ?thesis by simp
  qed
  have dist: "?r = map ?g pkgs" if d: "distinct (map packageName pkgs)"
  proof (cases ?all)
    case True
    then have "map ?g pkgs = pkgs" by (intro map_idI) auto
    with rn[OF True] show ?thesis by simp
  next
    case False
    have "map ?f pkgs = map ?g pkgs"
      by (rule map_cong[OF refl]) (rule fg[OF d])
    with upd[OF False] show ?thesis by simp
  qed
  let ?s = "afterChange pkgs (handleTogglePackage pkgs name)"
  have one: "?s = map (\<lambda>p. if packageName p = name then p\<lparr>selected := \<not> selected p\<rparr> else p) pkgs"
    by (simp add: handleTogglePackage_def afterChange_def)
  have len1: "length ?s = length pkgs" by (simp add: one)
  have pt1: "?s ! i = (pkgs ! i)\<lparr>selected := selected (?s ! i)\<rparr>
        \<and> (packageName (pkgs ! i) \<noteq> name \<longrightarrow> ?s ! i = pkgs ! i)
        \<and> (packageName (pkgs ! i) = name \<longrightarrow> selected (?s ! i) = (\<not> selected (pkgs ! i)))"
    if "i < length pkgs" for i
    using that by (simp add: one)
  from len pt dist noop len1 pt1 show ?thesis by blast
qed

text \<open>On the example collection: deselecting the generic group, deselecting the suspicious
  group (nothing to do), and toggling \<open>com.Samsung.bixby\<close>.\<close>

theorem toggle_frame_witness:
  "distinct (map packageName exampleDetected)
   \<and> afterChange exampleDetected
        (handleToggleAll exampleDetected (str ''Generic Bloatware'') False) =
       exampleDetected[0 := (exampleDetected ! 0)\<lparr>selected := False\<rparr>]
   \<and> (0::nat) < length exampleDetected
   \<and> categoryLabel (category (exampleDetected ! 0)) = str ''Generic Bloatware''
   \<and> selected (afterChange exampleDetected
        (handleToggleAll exampleDetected (str ''Generic Bloatware'') False) ! 0) = False
   \<and> (3::nat) < length exampleDetected
   \<and> packageName (exampleDetected ! 3) \<notin>
       packageName ` {q \<in> set exampleDetected.
                       categoryLabel (category q) = str ''Generic Bloatware''}
   \<and> afterChange exampleDetected
        (handleToggleAll exampleDetected (str ''Generic Bloatware'') False) ! 3 =
       exampleDetected ! 3
   \<and> list_all (\<lambda>p. categoryLabel (category p) = str ''Suspicious Packages'' \<longrightarrow>
                   selected p = False) exampleDetected
   \<and> handleToggleAll exampleDetected (str ''Suspicious Packages'') False = None
   \<and> afterChange exampleDetected
        (handleToggleAll exampleDetected (str ''Suspicious Packages'') False) = exampleDetected
   \<and> packageName (exampleDetected ! 3) = str ''com.Samsung.bixby''
   \<and> selected (afterChange exampleDetected
        (handleTogglePackage exampleDetected (str ''com.Samsung.bixby'')) ! 3) =
       (\<not> selected (exampleDetected ! 3))
   \<and> packageName (exampleDetected ! 0) \<noteq> str ''com.Samsung.bixby''
   \<and> afterChange exampleDetected
        (handleTogglePackage exampleDetected (str ''com.Samsung.bixby'')) ! 0 =
       exampleDetected ! 0"
proof -
  note T = toggle_frame[of exampleDetected "str ''Generic Bloatware''" False
      "str ''com.Samsung.bixby''"]
  note U = toggle_frame[of exampleDetected "str ''Suspicious Packages''" False
      "str ''com.Samsung.bixby''"]
  let ?r = "afterChange exampleDetected
        (handleToggleAll exampleDetected (str ''Generic Bloatware'') False)"
  let ?s = "afterChange exampleDetected
        (handleTogglePackage exampleDetected (str ''com.Samsung.bixby''))"
  have labels:
    "categoryLabel (str ''generic'') = str ''Generic Bloatware''"
    "categoryLabel (str ''suspicious'') = str ''Suspicious Packages''"
    "categoryLabel (str ''system'') = str ''Other Installed Apps''"
    "categoryLabel (str ''brand'') = str ''Brand-Specific Bloatware''"
    "str ''Suspicious Packages'' \<noteq> str ''Generic Bloatware''"
    "str ''Other Installed Apps'' \<noteq> str ''Generic Bloatware''"
    "str ''Brand-Specific Bloatware'' \<noteq> str ''Generic Bloatware''"
    "str ''Generic Bloatware'' \<noteq> str ''Suspicious Packages''"
    "str ''Other Installed Apps'' \<noteq> str ''Suspicious Packages''"
    "str ''Brand-Specific Bloatware'' \<noteq> str ''Suspicious Packages''"
    by (simp_all add: categoryLabel_def categoryLabels_def orElse_def truthy_def str_def)
  have d: "distinct (map packageName exampleDetected)"
    by (simp add: exampleDetected_def str_def)
  have ev: "map (\<lambda>p. if categoryLabel (category p) = str ''Generic Bloatware''
                      then p\<lparr>selected := False\<rparr> else p) exampleDetected =
      exampleDetected[0 := (exampleDetected ! 0)\<lparr>selected := False\<rparr>]"
    by (simp add: exampleDetected_def labels)
  from T d have "?r = map (\<lambda>p. if categoryLabel (category p) = str ''Generic Bloatware''
                      then p\<lparr>selected := False\<rparr> else p) exampleDetected"
    by blast
  then have r: "?r = exampleDetected[0 := (exampleDetected ! 0)\<lparr>selected := False\<rparr>]"
    using ev by (rule trans)
  have l0: "(0::nat) < length exampleDetected" and l3: "(3::nat) < length exampleDetected"
    by (simp_all add: exampleDetected_def)
  have c0: "categoryLabel (category (exampleDetected ! 0)) = str ''Generic Bloatware''"
    by (simp add: exampleDetected_def labels)
  from T l0 c0 have s0: "selected (?r ! 0) = False" by blast
  have p3: "packageName (exampleDetected ! 3) = str ''com.Samsung.bixby''"
    and p0: "packageName (exampleDetected ! 0) \<noteq> str ''com.Samsung.bixby''"
    by (simp_all add: exampleDetected_def str_def)
  have tset: "{q \<in> set exampleDetected.
      categoryLabel (category q) = str ''Generic Bloatware''} = {exampleDetected ! 0}"
    by (auto simp: exampleDetected_def labels)
  have n3: "packageName (exampleDetected ! 3) \<notin>
       packageName ` {q \<in> set exampleDetected.
                       categoryLabel (category q) = str ''Generic Bloatware''}"
    unfolding tset using p3 p0 by simp
  from T l3 n3 have r3: "?r ! 3 = exampleDetected ! 3" by blast
  have a: "list_all (\<lambda>p. categoryLabel (category p) = str ''Suspicious Packages'' \<longrightarrow>
                   selected p = False) exampleDetected"
    by (simp add: exampleDetected_def labels)
  then have a': "\<forall>p\<in>set exampleDetected.
      categoryLabel (category p) = str ''Suspicious Packages'' \<longrightarrow> selected p = False"
    by (simp only: list_all_iff)
  from U a' have noop: "handleToggleAll exampleDetected (str ''Suspicious Packages'') False = None
      \<and> afterChange exampleDetected
        (handleToggleAll exampleDetected (str ''Suspicious Packages'') False) = exampleDetected"
    by blast
  from T l3 p3 have t3: "selected (?s ! 3) = (\<not> selected (exampleDetected ! 3))" by blast
  from T l0 p0 have t0: "?s ! 0 = exampleDetected ! 0" by blast
  from d r l0 c0 s0 l3 n3 r3 a noop p3 t3 p0 t0 show ?thesis by blast
qed

end
